theory Spec2Isabelle
  imports Main "HOL-Library.Char_ord" "HOL-Library.List_Lexorder"
begin

section \<open>Paths and path strings\<close>

text \<open>
  A path (\<open>fs::path\<close>) is its list of components; \<open>generic_string\<close> writes it with
  \<open>/\<close> between the components, and a \<open>std::string\<close> given to a filesystem call is read back
  by \<open>to_path\<close>, which splits at \<open>/\<close> and skips empty components (\<open>a//b\<close> and \<open>a/b/\<close> name
  what \<open>a/b\<close> names). All paths are resolved against one root directory; \<open>.\<close> and \<open>..\<close> are
  ordinary names. The order on paths is the one of \<open>fs::path::compare\<close>: component by
  component, each component by its characters.
\<close>

type_synonym path = "string list"

fun generic_string :: "path \<Rightarrow> string" where
  "generic_string [] = []"
| "generic_string [c] = c"
| "generic_string (c # d # ds) = c @ CHR ''/'' # generic_string (d # ds)"

fun split_slash :: "string \<Rightarrow> string list" where
  "split_slash [] = [[]]"
| "split_slash (x # xs) =
     (if x = CHR ''/'' then [] # split_slash xs
      else (case split_slash xs of
              [] \<Rightarrow> [[x]]
            | w # ws \<Rightarrow> (x # w) # ws))"

definition to_path :: "string \<Rightarrow> path" where
  "to_path s = filter (\<lambda>c. c \<noteq> []) (split_slash s)"

text \<open>
  \<open>std::string::rfind(c)\<close>: the index of the last occurrence of \<open>c\<close>, or \<open>npos\<close> (here
  \<open>None\<close>) when there is none.
\<close>

fun rfind :: "string \<Rightarrow> char \<Rightarrow> nat option" where
  "rfind [] c = None"
| "rfind (x # xs) c =
     (case rfind xs c of
        Some i \<Rightarrow> Some (Suc i)
      | None \<Rightarrow> if x = c then Some 0 else None)"

text \<open>\<open>std::string::substr(pos, n)\<close> for \<open>pos \<le> size()\<close>, the only case \<open>get_filename\<close> reaches.\<close>

definition substr :: "string \<Rightarrow> nat \<Rightarrow> nat \<Rightarrow> string" where
  "substr s pos n = take n (drop pos s)"

text \<open>
  \<open>DirWatcherCallback::get_filename\<close>. The result of \<open>rfind\<close> is stored in an \<open>int\<close>:
  \<open>npos\<close> becomes \<open>-1\<close>, so that \<open>elem + 1\<close> is \<open>0\<close> and the whole string is returned.
\<close>

definition get_filename :: "string \<Rightarrow> string" where
  "get_filename str =
     (let elem = (case rfind str CHR ''/'' of None \<Rightarrow> - 1 | Some i \<Rightarrow> int i)
      in substr str (nat (elem + 1)) (length str))"

section \<open>The file system\<close>

text \<open>
  The disk is a tree. Every object carries its last-write time; a regular file has its
  bytes and, of its permissions, whether it is read-only (it cannot be opened for
  writing); a directory has its named children in the order a directory iterator yields
  them; \<open>Other\<close> stands for what is neither (a FIFO, a socket, a device). A call that
  writes is given the time of the call.
\<close>

datatype node =
    File nat bool string
  | Dir nat "(string \<times> node) list"
  | Other nat

datatype file_type = regular | directory | other

fun type_of :: "node \<Rightarrow> file_type" where
  "type_of (File m ro c) = regular"
| "type_of (Dir m ch) = directory"
| "type_of (Other m) = other"

fun mtime_of :: "node \<Rightarrow> nat" where
  "mtime_of (File m ro c) = m"
| "mtime_of (Dir m ch) = m"
| "mtime_of (Other m) = m"

datatype exn = filesystem_error string | runtime_error string

fun child :: "(string \<times> node) list \<Rightarrow> string \<Rightarrow> node option" where
  "child [] n = None"
| "child ((k, v) # ch) n = (if k = n then Some v else child ch n)"

fun put_child :: "string \<Rightarrow> node \<Rightarrow> (string \<times> node) list \<Rightarrow> (string \<times> node) list" where
  "put_child n x [] = [(n, x)]"
| "put_child n x ((k, v) # ch) = (if k = n then (k, x) # ch else (k, v) # put_child n x ch)"

fun drop_child :: "string \<Rightarrow> (string \<times> node) list \<Rightarrow> (string \<times> node) list" where
  "drop_child n [] = []"
| "drop_child n ((k, v) # ch) = (if k = n then drop_child n ch else (k, v) # drop_child n ch)"

fun lookup :: "node \<Rightarrow> path \<Rightarrow> node option" where
  "lookup x [] = Some x"
| "lookup (Dir m ch) (c # cs) =
     (case child ch c of None \<Rightarrow> None | Some y \<Rightarrow> lookup y cs)"
| "lookup (File m ro b) (c # cs) = None"
| "lookup (Other m) (c # cs) = None"

text \<open>
  \<open>store now root p x\<close> puts \<open>x\<close> at \<open>p\<close>; the parent of \<open>p\<close> has to be a directory, and
  it is written at \<open>now\<close> when \<open>p\<close> is a new name in it.
\<close>

fun store :: "nat \<Rightarrow> node \<Rightarrow> path \<Rightarrow> node \<Rightarrow> exn + node" where
  "store now y [] x = Inr x"
| "store now (Dir m ch) [c] x =
     Inr (Dir (if child ch c = None then now else m) (put_child c x ch))"
| "store now (Dir m ch) (c # d # ds) x =
     (case child ch c of
        None \<Rightarrow> Inl (filesystem_error ''No such file or directory'')
      | Some y \<Rightarrow>
          (case store now y (d # ds) x of
             Inl e \<Rightarrow> Inl e
           | Inr y' \<Rightarrow> Inr (Dir m (put_child c y' ch))))"
| "store now (File m ro b) (c # cs) x = Inl (filesystem_error ''Not a directory'')"
| "store now (Other m) (c # cs) x = Inl (filesystem_error ''Not a directory'')"

text \<open>
  \<open>unlink now root p\<close> takes the object at \<open>p\<close> away, with all below it, and writes its
  parent at \<open>now\<close>; the root stays.
\<close>

fun unlink :: "nat \<Rightarrow> node \<Rightarrow> path \<Rightarrow> node" where
  "unlink now y [] = y"
| "unlink now (Dir m ch) [c] =
     (if child ch c = None then Dir m ch else Dir now (drop_child c ch))"
| "unlink now (Dir m ch) (c # d # ds) =
     (case child ch c of
        None \<Rightarrow> Dir m ch
      | Some y \<Rightarrow> Dir m (put_child c (unlink now y (d # ds)) ch))"
| "unlink now (File m ro b) (c # cs) = File m ro b"
| "unlink now (Other m) (c # cs) = Other m"

definition fs_exists :: "node \<Rightarrow> path \<Rightarrow> bool" where
  "fs_exists root p = (lookup root p \<noteq> None)"


subsection \<open>The library calls the program makes\<close>

text \<open>
  \<open>fs::copy_file(from, to, overwrite_existing)\<close> at time \<open>now\<close>: \<open>from\<close> has to be a regular
  file, \<open>to\<close> absent or a regular file other than \<open>from\<close> that can be opened for writing.
  The copy has the bytes and the permissions of \<open>from\<close>, and it is written at \<open>now\<close>.
\<close>

definition copy_file :: "path \<Rightarrow> path \<Rightarrow> nat \<Rightarrow> node \<Rightarrow> exn + node" where
  "copy_file from to now root =
     (case lookup root from of
        Some (File m ro b) \<Rightarrow>
          (case lookup root to of
             None \<Rightarrow> store now root to (File now ro b)
           | Some (File m' ro' b') \<Rightarrow>
               if from = to then Inl (filesystem_error ''File exists'')
               else if ro' then Inl (filesystem_error ''Permission denied'')
               else store now root to (File now ro b)
           | Some (Dir m' ch) \<Rightarrow> Inl (filesystem_error ''Invalid argument'')
           | Some (Other m') \<Rightarrow> Inl (filesystem_error ''Invalid argument''))
      | Some (Dir m ch) \<Rightarrow> Inl (filesystem_error ''Invalid argument'')
      | Some (Other m) \<Rightarrow> Inl (filesystem_error ''Invalid argument'')
      | None \<Rightarrow> Inl (filesystem_error ''No such file or directory''))"

text \<open>
  \<open>fs::copy(from, to, overwrite_existing | recursive)\<close> below its top level: the object
  \<open>x\<close> named \<open>n\<close> is copied onto what is at the target now (\<open>t\<close>), and the result is what is
  at the target afterwards. A regular file copied onto a directory goes into that
  directory under its own name; a directory is merged child by child; objects that only
  the target has stay. Files and new directories are written at \<open>now\<close>, a directory
  that is there already when it gets a new name. The copy reads the tree below \<open>from\<close>
  as it stood when the call was made, and a call that fails leaves nothing behind in the
  model.
\<close>

fun copy_node :: "nat \<Rightarrow> string \<Rightarrow> node \<Rightarrow> node option \<Rightarrow> exn + node"
  and copy_children ::
    "nat \<Rightarrow> (string \<times> node) list \<Rightarrow> (string \<times> node) list \<Rightarrow> exn + (string \<times> node) list"
where
  "copy_node now n (Other m) t = Inl (filesystem_error ''Invalid argument'')"
| "copy_node now n (File m ro b) None = Inr (File now ro b)"
| "copy_node now n (File m ro b) (Some (File m' ro' b')) =
     (if ro' then Inl (filesystem_error ''Permission denied'') else Inr (File now ro b))"
| "copy_node now n (File m ro b) (Some (Other m')) = Inl (filesystem_error ''Invalid argument'')"
| "copy_node now n (File m ro b) (Some (Dir m' ch')) =
     (case child ch' n of
        None \<Rightarrow> Inr (Dir now (put_child n (File now ro b) ch'))
      | Some (File m'' ro'' b'') \<Rightarrow>
          if ro'' then Inl (filesystem_error ''Permission denied'')
          else Inr (Dir m' (put_child n (File now ro b) ch'))
      | Some (Dir m'' ch'') \<Rightarrow> Inl (filesystem_error ''Invalid argument'')
      | Some (Other m'') \<Rightarrow> Inl (filesystem_error ''Invalid argument''))"
| "copy_node now n (Dir m ch) None =
     (case copy_children now ch [] of Inl e \<Rightarrow> Inl e | Inr r \<Rightarrow> Inr (Dir now r))"
| "copy_node now n (Dir m ch) (Some (Dir m' ch')) =
     (case copy_children now ch ch' of
        Inl e \<Rightarrow> Inl e
      | Inr r \<Rightarrow> Inr (Dir (if list_all (\<lambda>k. child ch' k \<noteq> None) (map fst ch) then m' else now) r))"
| "copy_node now n (Dir m ch) (Some (File m' ro' b')) = Inl (filesystem_error ''Not a directory'')"
| "copy_node now n (Dir m ch) (Some (Other m')) = Inl (filesystem_error ''Invalid argument'')"
| "copy_children now [] tch = Inr tch"
| "copy_children now ((n, x) # ch) tch =
     (case copy_node now n x (child tch n) of
        Inl e \<Rightarrow> Inl e
      | Inr y \<Rightarrow> copy_children now ch (put_child n y tch))"

text \<open>
  The top level of \<open>fs::copy(from, to, overwrite_existing | recursive)\<close>, with the errors
  of the standard in its order: \<open>from\<close> missing, \<open>from\<close> and \<open>to\<close> the same object, one of
  them neither file nor directory, a directory onto a regular file.
\<close>

definition fs_copy :: "path \<Rightarrow> path \<Rightarrow> nat \<Rightarrow> node \<Rightarrow> exn + node" where
  "fs_copy from to now root =
     (case lookup root from of
        None \<Rightarrow> Inl (filesystem_error ''No such file or directory'')
      | Some f \<Rightarrow>
          if from = to then Inl (filesystem_error ''File exists'')
          else if type_of f = other \<or> map_option type_of (lookup root to) = Some other
            then Inl (filesystem_error ''Invalid argument'')
          else if type_of f = directory \<and> map_option type_of (lookup root to) = Some regular
            then Inl (filesystem_error ''Not a directory'')
          else if type_of f = regular then
            (if map_option type_of (lookup root to) = Some directory
               then copy_file from (to @ [last from]) now root
               else copy_file from to now root)
          else
            (case copy_node now (last from) f (lookup root to) of
               Inl e \<Rightarrow> Inl e
             | Inr y \<Rightarrow> store now root to y))"

text \<open>
  \<open>fs::remove\<close> takes away a file or an empty directory and does nothing when there is
  no such object; \<open>fs::remove_all\<close> takes away a whole tree.
\<close>

definition fs_remove :: "path \<Rightarrow> nat \<Rightarrow> node \<Rightarrow> exn + node" where
  "fs_remove p now root =
     (case lookup root p of
        None \<Rightarrow> Inr root
      | Some (Dir m (c # ch)) \<Rightarrow> Inl (filesystem_error ''Directory not empty'')
      | Some x \<Rightarrow> Inr (unlink now root p))"

definition remove_all :: "path \<Rightarrow> nat \<Rightarrow> node \<Rightarrow> exn + node" where
  "remove_all p now root = Inr (unlink now root p)"

subsection \<open>Directory entries and the recursive walk\<close>

text \<open>
  A \<open>fs::directory_entry\<close> made by a directory iterator holds the path and the attributes
  the iterator read: the file type and the last-write time. \<open>is_regular_file\<close> and
  \<open>is_directory\<close> answer from the stored type. Entries are compared by path alone.
\<close>

record directory_entry =
  entry_path :: path
  entry_type :: file_type
  entry_time :: nat

definition is_regular_file :: "directory_entry \<Rightarrow> bool" where
  "is_regular_file e = (entry_type e = regular)"

definition is_directory :: "directory_entry \<Rightarrow> bool" where
  "is_directory e = (entry_type e = directory)"

definition entry_of :: "path \<Rightarrow> node \<Rightarrow> directory_entry" where
  "entry_of p x = \<lparr>entry_path = p, entry_type = type_of x, entry_time = mtime_of x\<rparr>"

text \<open>
  \<open>fs::recursive_directory_iterator\<close>: every object below the directory, a directory
  before what it holds. It throws when the path is not a directory.
\<close>

fun entries_below :: "path \<Rightarrow> (string \<times> node) list \<Rightarrow> directory_entry list" where
  "entries_below p [] = []"
| "entries_below p ((n, File m ro b) # ch) =
     entry_of (p @ [n]) (File m ro b) # entries_below p ch"
| "entries_below p ((n, Other m) # ch) = entry_of (p @ [n]) (Other m) # entries_below p ch"
| "entries_below p ((n, Dir m sub) # ch) =
     entry_of (p @ [n]) (Dir m sub) # entries_below (p @ [n]) sub @ entries_below p ch"

definition recursive_directory_iterator :: "node \<Rightarrow> path \<Rightarrow> exn + directory_entry list" where
  "recursive_directory_iterator root p =
     (case lookup root p of
        Some (Dir m ch) \<Rightarrow> Inr (entries_below p ch)
      | Some (File m ro b) \<Rightarrow> Inl (filesystem_error ''Not a directory'')
      | Some (Other m) \<Rightarrow> Inl (filesystem_error ''Not a directory'')
      | None \<Rightarrow> Inl (filesystem_error ''No such file or directory''))"

text \<open>
  \<open>std::set<fs::directory_entry>\<close>: the entries in path order, one per path. \<open>emplace\<close>
  leaves the set as it is when it already holds an entry of that path.
\<close>

definition set_find :: "directory_entry list \<Rightarrow> directory_entry \<Rightarrow> directory_entry option" where
  "set_find s e = find (\<lambda>x. entry_path x = entry_path e) s"

definition set_contains :: "directory_entry list \<Rightarrow> directory_entry \<Rightarrow> bool" where
  "set_contains s e = (set_find s e \<noteq> None)"

definition set_emplace :: "directory_entry \<Rightarrow> directory_entry list \<Rightarrow> directory_entry list" where
  "set_emplace e s = (if set_contains s e then s else insort_key entry_path e s)"

definition set_erase :: "directory_entry \<Rightarrow> directory_entry list \<Rightarrow> directory_entry list" where
  "set_erase e s = filter (\<lambda>x. entry_path x \<noteq> entry_path e) s"


section \<open>The logger\<close>

text \<open>
  The world the program acts on: the disk; the live \<open>Logger\<close> instance (\<open>this_ptr\<close>), of
  which the \<open>debug\<close> flag and the file that its stream \<open>outf\<close> has open matter here (no
  file when the stream could not open one); the lines written to the console so far,
  each with its severity; and the time of day. An exception is a value that carries the
  world it was thrown in.
\<close>

datatype severity_t = INFO | WARNING | ERROR | FATAL | DEBUG

record world =
  disk :: node
  logger :: "bool option"
  logged :: "(severity_t \<times> string) list"
  log_file :: "path option"
  time :: nat

type_synonym 'a result = "(exn \<times> world) + 'a"

fun get_severity_str :: "severity_t \<Rightarrow> string" where
  "get_severity_str INFO = ''INFO''"
| "get_severity_str WARNING = ''WARNING''"
| "get_severity_str ERROR = ''ERROR''"
| "get_severity_str FATAL = ''FATAL''"
| "get_severity_str DEBUG = ''DEBUG''"

text \<open>
  A line goes through the stream buffer of \<open>outf\<close> to the end of the file that it has
  open, if that file is still where it was opened. The date at the head of the line and
  the source position at its end are not kept.
\<close>

definition write_line :: "path option \<Rightarrow> nat \<Rightarrow> string \<Rightarrow> node \<Rightarrow> node" where
  "write_line f now line d =
     (case f of
        None \<Rightarrow> d
      | Some p \<Rightarrow>
          (case lookup d p of
             Some (File m ro b) \<Rightarrow>
               (case store now d p (File now ro (b @ line @ [CHR 0x0A])) of
                  Inl e \<Rightarrow> d
                | Inr d' \<Rightarrow> d')
           | Some (Dir m ch) \<Rightarrow> d
           | Some (Other m) \<Rightarrow> d
           | None \<Rightarrow> d))"

text \<open>
  \<open>Logger::logf\<close>, with the text already formatted: one line to the console and one to
  the log file.
\<close>

definition logf :: "severity_t \<Rightarrow> string \<Rightarrow> world \<Rightarrow> world result" where
  "logf severity text w =
     (case logger w of
        None \<Rightarrow> Inl (runtime_error ''The logger must first be instantiated'', w)
      | Some debug \<Rightarrow>
          if severity = DEBUG \<and> \<not> debug then Inr w
          else Inr (w\<lparr>logged := logged w @ [(severity, text)],
                      disk := write_line (log_file w) (time w)
                                (get_severity_str severity @ '': '' @ text) (disk w)\<rparr>))"

section \<open>The callback\<close>

datatype action_t = CREATE | MODIFY | DELETE | UNEXPECTED_ACTION

datatype file_t = DIRECTORY | REGULAR | UNEXPECTED_FILE

fun get_file_str :: "file_t \<Rightarrow> exn + string" where
  "get_file_str DIRECTORY = Inr ''Directory''"
| "get_file_str REGULAR = Inr ''Regular file''"
| "get_file_str UNEXPECTED_FILE =
     Inl (runtime_error ''Action has been detected for unexpected file type'')"

text \<open>A string function that throws, thrown in world \<open>w\<close>.\<close>

definition in_world :: "world \<Rightarrow> exn + 'a \<Rightarrow> 'a result" where
  "in_world w r = (case r of Inl e \<Rightarrow> Inl (e, w) | Inr x \<Rightarrow> Inr x)"

definition then_do :: "'a result \<Rightarrow> ('a \<Rightarrow> 'b result) \<Rightarrow> 'b result" where
  "then_do r f = (case r of Inl e \<Rightarrow> Inl e | Inr x \<Rightarrow> f x)"

text \<open>A library call that writes, made at the time of the world.\<close>

definition on_disk :: "(nat \<Rightarrow> node \<Rightarrow> exn + node) \<Rightarrow> world \<Rightarrow> world result" where
  "on_disk f w =
     (case f (time w) (disk w) of Inl e \<Rightarrow> Inl (e, w) | Inr d \<Rightarrow> Inr (w\<lparr>disk := d\<rparr>))"

text \<open>
  \<open>DirWatcherCallback::report_action\<close>. The two branches for regular files log before
  they touch the disk, the two for directories after. Any other pair of action and file
  type does nothing.
\<close>

definition report_action :: "action_t \<Rightarrow> file_t \<Rightarrow> path \<Rightarrow> string \<Rightarrow> world \<Rightarrow> world result" where
  "report_action action file path directory_path w =
     (if (action = CREATE \<or> action = MODIFY) \<and> file = REGULAR then
        then_do (in_world w (get_file_str file)) (\<lambda>file_str.
        then_do (logf INFO (file_str @ '' '' @ get_filename (generic_string path)
                   @ '' has been created in Replica'' @ '' | '' @ generic_string path) w) (\<lambda>w1.
        on_disk (copy_file path
                   (to_path (directory_path @ ''/'' @ get_filename (generic_string path)))) w1))
      else if action = DELETE \<and> file = REGULAR then
        then_do (in_world w (get_file_str file)) (\<lambda>file_str.
        then_do (logf INFO (file_str @ '' '' @ get_filename (generic_string path)
                   @ '' has been deleted from Replica'' @ '' | '' @ generic_string path) w) (\<lambda>w1.
        on_disk (fs_remove
                   (to_path (directory_path @ ''/'' @ get_filename (generic_string path)))) w1))
      else if (action = CREATE \<or> action = MODIFY) \<and> file = DIRECTORY then
        then_do (on_disk (fs_copy path
                   (to_path (directory_path @ ''/'' @ get_filename (generic_string path)))) w) (\<lambda>w1.
        then_do (in_world w1 (get_file_str file)) (\<lambda>file_str.
        logf INFO (file_str @ '' '' @ get_filename (generic_string path)
                   @ '' has been created in Replica'' @ '' | '' @ generic_string path) w1))
      else if action = DELETE \<and> file = DIRECTORY then
        then_do (on_disk (remove_all
                   (to_path (directory_path @ ''/'' @ get_filename (generic_string path)))) w) (\<lambda>w1.
        then_do (in_world w1 (get_file_str file)) (\<lambda>file_str.
        logf INFO (file_str @ '' '' @ get_filename (generic_string path)
                   @ '' has been deleted from Replica'' @ '' | '' @ generic_string path) w1))
      else Inr w)"

section \<open>The watcher\<close>

text \<open>
  The members of \<open>DirWatcher\<close> that \<open>run_internal\<close> reads are its configuration; whether a
  stored \<open>directory_entry\<close> answers \<open>last_write_time()\<close> from the time it read during the
  iteration or from the disk is left to the library, hence \<open>caches_time\<close>.
\<close>

record config =
  source :: string
  replica :: string
  synch_interval :: nat
  caches_time :: bool

text \<open>
  The state of a run: the three containers of \<open>DirWatcher\<close>, the world, the clock in
  seconds, and a record of the calls made to \<open>callback->report_action\<close> so far, which
  the program does not keep and the theorems speak about.
\<close>

record state =
  source_content :: "directory_entry list"
  replica_content :: "directory_entry list"
  garbage :: "directory_entry list"
  world :: world
  clock :: nat
  reported :: "(action_t \<times> file_t \<times> path) list"

type_synonym callback = "action_t \<Rightarrow> file_t \<Rightarrow> path \<Rightarrow> string \<Rightarrow> world \<Rightarrow> world result"

definition call :: "callback \<Rightarrow> action_t \<Rightarrow> file_t \<Rightarrow> path \<Rightarrow> string \<Rightarrow> state \<Rightarrow> state result" where
  "call cb action file p directory_path st =
     (case cb action file p directory_path (world st) of
        Inl e \<Rightarrow> Inl e
      | Inr w \<Rightarrow> Inr (st\<lparr>world := w, reported := reported st @ [(action, file, p)]\<rparr>))"

text \<open>
  \<open>file_entry->last_write_time()\<close> on the entry found in \<open>source_content\<close>, for the walk's
  \<open>entry\<close> of the same path: the stored time, or what the disk says now, which is what
  \<open>entry\<close> holds.
\<close>

definition recorded_time :: "config \<Rightarrow> directory_entry \<Rightarrow> directory_entry \<Rightarrow> nat" where
  "recorded_time cfg entry file_entry =
     (if caches_time cfg then entry_time file_entry else entry_time entry)"

text \<open>The body of the first loop of \<open>run_internal\<close>, for one \<open>entry\<close> of the walk.\<close>

definition visit :: "callback \<Rightarrow> config \<Rightarrow> directory_entry \<Rightarrow> state \<Rightarrow> state result" where
  "visit cb cfg entry st =
     (case set_find (source_content st) entry of
        None \<Rightarrow>
          (let st1 = st\<lparr>source_content := set_emplace entry (source_content st),
                        replica_content := set_emplace entry (replica_content st)\<rparr>
           in if is_regular_file entry then
                call cb CREATE REGULAR (entry_path entry) (replica cfg) st1
              else if is_directory entry then
                call cb CREATE DIRECTORY (entry_path entry) (replica cfg) st1
              else Inr st1)
      | Some file_entry \<Rightarrow>
          if entry_time entry > recorded_time cfg entry file_entry then
            (if is_regular_file entry then
               call cb MODIFY REGULAR (entry_path entry) (replica cfg) st
             else if is_directory entry then
               call cb MODIFY DIRECTORY (entry_path entry) (replica cfg) st
             else Inr st)
          else Inr st)"

fun visit_all :: "callback \<Rightarrow> config \<Rightarrow> directory_entry list \<Rightarrow> state \<Rightarrow> state result" where
  "visit_all cb cfg [] st = Inr st"
| "visit_all cb cfg (entry # rest) st =
     (case visit cb cfg entry st of
        Inl e \<Rightarrow> Inl e
      | Inr st1 \<Rightarrow> visit_all cb cfg rest st1)"

text \<open>The body of the second loop, for one \<open>entry\<close> of \<open>source_content\<close>.\<close>

definition sweep :: "callback \<Rightarrow> config \<Rightarrow> directory_entry \<Rightarrow> state \<Rightarrow> state result" where
  "sweep cb cfg entry st =
     (if set_contains (replica_content st) entry
         \<and> \<not> fs_exists (disk (world st)) (entry_path entry) then
        then_do
          (if is_regular_file entry then
             call cb DELETE REGULAR (entry_path entry) (replica cfg) st
           else if is_directory entry then
             call cb DELETE DIRECTORY (entry_path entry) (replica cfg) st
           else Inr st)
          (\<lambda>st1. Inr (st1\<lparr>garbage := garbage st1 @ [entry]\<rparr>))
      else Inr st)"

fun sweep_all :: "callback \<Rightarrow> config \<Rightarrow> directory_entry list \<Rightarrow> state \<Rightarrow> state result" where
  "sweep_all cb cfg [] st = Inr st"
| "sweep_all cb cfg (entry # rest) st =
     (case sweep cb cfg entry st of
        Inl e \<Rightarrow> Inl e
      | Inr st1 \<Rightarrow> sweep_all cb cfg rest st1)"

text \<open>The third loop and \<open>garbage.clear()\<close>.\<close>

definition collect :: "state \<Rightarrow> state" where
  "collect st =
     st\<lparr>source_content := fold set_erase (garbage st) (source_content st), garbage := []\<rparr>"

text \<open>
  One pass of the body of the \<open>while\<close> loop after the sleep: the three loops. The walk
  yields the objects that are below the source when the pass starts.
\<close>

definition poll :: "callback \<Rightarrow> config \<Rightarrow> state \<Rightarrow> state result" where
  "poll cb cfg st =
     (case recursive_directory_iterator (disk (world st)) (to_path (source cfg)) of
        Inl e \<Rightarrow> Inl (e, world st)
      | Inr entries \<Rightarrow>
          then_do (visit_all cb cfg entries st) (\<lambda>st1.
          then_do (sweep_all cb cfg (source_content st1) st1) (\<lambda>st2.
          Inr (collect st2))))"


subsection \<open>The loop\<close>

text \<open>
  What the worker does not control: the moment another thread sets \<open>stop_flag\<close> (never,
  for \<open>None\<close>; the flag is never cleared), and what other processes make of the disk
  while the worker sleeps (\<open>outside env t d\<close> is the disk at time \<open>t\<close>, from the disk \<open>d\<close>
  at the start of the sleep).
\<close>

record environment =
  stop_at :: "nat option"
  outside :: "nat \<Rightarrow> node \<Rightarrow> node"

definition stop_flag :: "environment \<Rightarrow> nat \<Rightarrow> bool" where
  "stop_flag env t = (case stop_at env of None \<Rightarrow> False | Some s \<Rightarrow> s \<le> t)"

text \<open>
  \<open>std::this_thread::sleep_for(std::chrono::seconds(synch_interval))\<close>: the \<open>size_t\<close>
  becomes the signed 64-bit count of seconds, and a negative duration does not sleep.
  The call returns when the time has passed and reads nothing of the watcher meanwhile.
\<close>

definition seconds :: "nat \<Rightarrow> nat" where
  "seconds n = (if n < 2 ^ 63 then n else 0)"

definition sleep_for :: "nat \<Rightarrow> environment \<Rightarrow> state \<Rightarrow> state" where
  "sleep_for d env st =
     st\<lparr>clock := clock st + d,
        world := (world st)\<lparr>disk := outside env (clock st + d) (disk (world st)),
                            time := clock st + d\<rparr>\<rparr>"

datatype outcome =
    Returned state
  | Terminated exn world
  | Running state

text \<open>
  \<open>DirWatcher::run_internal\<close>. An exception leaves the thread function, which ends the
  process (\<open>std::terminate\<close>). The loop need not end, so the model counts the passes it
  may still make; \<open>Running\<close> is the state after the last one allowed.
\<close>

fun run_internal :: "nat \<Rightarrow> callback \<Rightarrow> config \<Rightarrow> environment \<Rightarrow> state \<Rightarrow> outcome" where
  "run_internal 0 cb cfg env st = Running st"
| "run_internal (Suc n) cb cfg env st =
     (if stop_flag env (clock st) then Returned st
      else
        (case poll cb cfg (sleep_for (seconds (synch_interval cfg)) env st) of
           Inl (e, w) \<Rightarrow> Terminated e w
         | Inr st1 \<Rightarrow> run_internal n cb cfg env st1))"

section \<open>The entry point\<close>

text \<open>
  \<open>argv[i]\<close>: the argument for \<open>i < argc\<close>, the null pointer for \<open>i = argc\<close>, and a read
  past the end of the array beyond that.
\<close>

datatype 'a read = Value 'a | Null | Past_the_end

definition argv_at :: "string list \<Rightarrow> nat \<Rightarrow> string read" where
  "argv_at argv i =
     (if i < length argv then Value (argv ! i)
      else if i = length argv then Null
      else Past_the_end)"

text \<open>\<open>std::atoi\<close> for values an \<open>int\<close> holds, and the conversion of its result to \<open>size_t\<close>.\<close>

definition isspace :: "char \<Rightarrow> bool" where
  "isspace c = (c = CHR '' '' \<or> (9 :: nat) \<le> of_char c \<and> of_char c \<le> (13 :: nat))"

definition isdigit :: "char \<Rightarrow> bool" where
  "isdigit c = ((48 :: nat) \<le> of_char c \<and> of_char c \<le> (57 :: nat))"

fun digits :: "string \<Rightarrow> int \<Rightarrow> int" where
  "digits [] acc = acc"
| "digits (c # cs) acc = (if isdigit c then digits cs (10 * acc + (of_char c - 48)) else acc)"

definition atoi :: "string \<Rightarrow> int" where
  "atoi s =
     (case dropWhile isspace s of
        [] \<Rightarrow> 0
      | c # cs \<Rightarrow>
          if c = CHR ''-'' then - digits cs 0
          else if c = CHR ''+'' then digits cs 0
          else digits (c # cs) 0)"

definition size_t :: "int \<Rightarrow> nat" where
  "size_t x = nat (x mod 2 ^ 64)"

text \<open>
  The constructor of \<open>Logger\<close>. \<open>new std::ofstream(filename)\<close> creates or empties the
  file where it can and is left without a file where it cannot; for a null \<open>filename\<close>
  no stream is made, and \<open>outf->open(filename)\<close> then goes through the null pointer. The
  second \<open>open\<close> of a stream that is open fails and leaves the file open.
\<close>

definition ofstream :: "path \<Rightarrow> nat \<Rightarrow> node \<Rightarrow> node option" where
  "ofstream p now d =
     (case lookup d p of
        Some (Dir m ch) \<Rightarrow> None
      | Some (Other m) \<Rightarrow> None
      | Some (File m ro b) \<Rightarrow>
          if ro then None
          else (case store now d p (File now ro []) of Inl e \<Rightarrow> None | Inr d' \<Rightarrow> Some d')
      | None \<Rightarrow>
          (case store now d p (File now False []) of Inl e \<Rightarrow> None | Inr d' \<Rightarrow> Some d'))"

datatype ending =
    Exit_failure string
  | Null_pointer_dereference
  | Read_past_argv
  | Uncaught exn
  | Worker outcome

definition Logger :: "string read \<Rightarrow> bool \<Rightarrow> nat \<Rightarrow> world \<Rightarrow> ending + world" where
  "Logger filename debug_param now w =
     (case filename of
        Past_the_end \<Rightarrow> Inl Read_past_argv
      | Null \<Rightarrow>
          (if logger w \<noteq> None
             then Inl (Uncaught (runtime_error ''Only one instance of Logger can be created''))
           else Inl Null_pointer_dereference)
      | Value name \<Rightarrow>
          (let w1 = (case ofstream (to_path name) now (disk w) of
                       None \<Rightarrow> w
                     | Some d \<Rightarrow> w\<lparr>disk := d\<rparr>);
               outf = (case ofstream (to_path name) now (disk w) of
                         None \<Rightarrow> None
                       | Some d \<Rightarrow> Some (to_path name))
           in if logger w1 \<noteq> None
                then Inl (Uncaught (runtime_error ''Only one instance of Logger can be created''))
              else Inr (w1\<lparr>logger := Some debug_param, log_file := outf\<rparr>)))"

text \<open>The constructor of \<open>DirWatcher\<close>, for the first instance of the process.\<close>

definition DirWatcher :: "string \<Rightarrow> string \<Rightarrow> nat \<Rightarrow> bool \<Rightarrow> config" where
  "DirWatcher src rep interval lib =
     \<lparr>source = src, replica = rep, synch_interval = interval, caches_time = lib\<rparr>"

definition start :: "world \<Rightarrow> nat \<Rightarrow> state" where
  "start w now =
     \<lparr>source_content = [], replica_content = [], garbage = [], world = w, clock = now,
      reported = []\<rparr>"

definition usage :: string where
  "usage = ''Few arguments | 1. Source folder path | 2. Replica folder path | 3. Synchronization interval | 4. Log file path and log filename''"

text \<open>
  \<open>main\<close>, run on a disk \<open>d\<close> at time \<open>now\<close> with no \<open>Logger\<close> alive, for at most \<open>n\<close> passes
  of the worker. The \<open>Logger\<close> is made from \<open>argv[4]\<close> before \<open>argc\<close> is looked at.
\<close>

definition main :: "nat \<Rightarrow> bool \<Rightarrow> environment \<Rightarrow> node \<Rightarrow> nat \<Rightarrow> string list \<Rightarrow> ending" where
  "main n lib env d now argv =
     (case Logger (argv_at argv 4) False now
             \<lparr>disk = d, logger = None, logged = [], log_file = None, time = now\<rparr> of
        Inl stop \<Rightarrow> stop
      | Inr w \<Rightarrow>
          if 5 \<noteq> length argv then Exit_failure usage
          else Worker (run_internal n report_action
                 (DirWatcher (argv ! 1) (argv ! 2) (size_t (atoi (argv ! 3))) lib)
                 env (start w now)))"

section \<open>Properties of states and disks\<close>

text \<open>
  Every entry of \<open>source_content\<close> has an entry of its path in \<open>replica_content\<close>; and
  \<open>replica_content\<close> loses no path from one state to a later one.
\<close>

definition shadowed :: "state \<Rightarrow> bool" where
  "shadowed st = list_all (set_contains (replica_content st)) (source_content st)"

definition never_pruned :: "state \<Rightarrow> state \<Rightarrow> bool" where
  "never_pruned st st' = list_all (set_contains (replica_content st')) (replica_content st)"

text \<open>At most one entry of \<open>source_content\<close> for a path, as in a \<open>std::set\<close>.\<close>

definition one_per_path :: "state \<Rightarrow> bool" where
  "one_per_path st = distinct (map entry_path (source_content st))"

text \<open>The delete event the second loop reports for an entry stored as file or directory.\<close>

definition delete_event :: "directory_entry \<Rightarrow> action_t \<times> file_t \<times> path" where
  "delete_event e = (DELETE, if is_regular_file e then REGULAR else DIRECTORY, entry_path e)"

text \<open>
  The event that the first loop reports for \<open>entry\<close> in state \<open>st\<close>, and the one that the
  second loop reports; \<open>None\<close> when the loop makes no call for it.
\<close>

definition walk_event :: "config \<Rightarrow> directory_entry \<Rightarrow> state \<Rightarrow> (action_t \<times> file_t) option" where
  "walk_event cfg entry st =
     (case set_find (source_content st) entry of
        None \<Rightarrow>
          if is_regular_file entry then Some (CREATE, REGULAR)
          else if is_directory entry then Some (CREATE, DIRECTORY)
          else None
      | Some file_entry \<Rightarrow>
          if entry_time entry > recorded_time cfg entry file_entry then
            (if is_regular_file entry then Some (MODIFY, REGULAR)
             else if is_directory entry then Some (MODIFY, DIRECTORY)
             else None)
          else None)"

definition sweep_event :: "directory_entry \<Rightarrow> state \<Rightarrow> (action_t \<times> file_t) option" where
  "sweep_event entry st =
     (if set_contains (replica_content st) entry
         \<and> \<not> fs_exists (disk (world st)) (entry_path entry) then
        (if is_regular_file entry then Some (DELETE, REGULAR)
         else if is_directory entry then Some (DELETE, DIRECTORY)
         else None)
      else None)"

text \<open>
  The log of \<open>w'\<close> is the log of \<open>w\<close> followed by lines of severity \<open>INFO\<close> only; and
  the world a step ends in, thrown or returned.
\<close>

definition info_only :: "world \<Rightarrow> world \<Rightarrow> bool" where
  "info_only w w' =
     (length (logged w) \<le> length (logged w')
      \<and> take (length (logged w)) (logged w') = logged w
      \<and> list_all (\<lambda>l. fst l = INFO) (drop (length (logged w)) (logged w')))"

definition final :: "state result \<Rightarrow> world" where
  "final r = (case r of Inl (e, w) \<Rightarrow> w | Inr st \<Rightarrow> world st)"

definition final_world :: "world result \<Rightarrow> world" where
  "final_world r = (case r of Inl (e, w) \<Rightarrow> w | Inr w \<Rightarrow> w)"





text \<open>
  What the claim about the target path says of \<open>report_action\<close>: the action is applied
  at the given \<open>target\<close> in the replica, and the log names the object \<open>name\<close>.
\<close>

definition reconcile :: "string \<Rightarrow> path \<Rightarrow> action_t \<Rightarrow> file_t \<Rightarrow> path \<Rightarrow> world \<Rightarrow> world result" where
  "reconcile name target action file path w =
     (if file = REGULAR \<and> (action = CREATE \<or> action = MODIFY) then
        then_do (logf INFO (''Regular file '' @ name @ '' has been created in Replica | ''
                   @ generic_string path) w)
          (on_disk (copy_file path target))
      else if file = REGULAR \<and> action = DELETE then
        then_do (logf INFO (''Regular file '' @ name @ '' has been deleted from Replica | ''
                   @ generic_string path) w)
          (on_disk (fs_remove target))
      else if file = DIRECTORY \<and> (action = CREATE \<or> action = MODIFY) then
        then_do (on_disk (fs_copy path target) w)
          (logf INFO (''Directory '' @ name @ '' has been created in Replica | ''
                   @ generic_string path))
      else if file = DIRECTORY \<and> action = DELETE then
        then_do (on_disk (remove_all target) w)
          (logf INFO (''Directory '' @ name @ '' has been deleted from Replica | ''
                   @ generic_string path))
      else Inr w)"

section \<open>Disks and runs used as examples\<close>

definition watcher_config :: "bool \<Rightarrow> config" where
  "watcher_config lib = DirWatcher ''Source'' ''Replica'' 5 lib"

definition world_on :: "node \<Rightarrow> world" where
  "world_on d = \<lparr>disk = d, logger = Some False, logged = [], log_file = None, time = 0\<rparr>"

text \<open>Other processes change the disk between two polls.\<close>

definition with_disk :: "node \<Rightarrow> state \<Rightarrow> state" where
  "with_disk d st = st\<lparr>world := (world st)\<lparr>disk := d\<rparr>\<rparr>"

definition disk_empty :: node where
  "disk_empty = Dir 0 [(''Source'', Dir 0 []), (''Replica'', Dir 0 [])]"

definition disk_nested :: node where
  "disk_nested =
     Dir 0 [(''Source'', Dir 1 [(''sub'', Dir 1 [(''a.txt'', File 1 False ''v1'')])]),
            (''Replica'', Dir 0 [])]"

text \<open>The nested file, mirrored by a poll, is edited.\<close>

definition disk_nested_edited :: node where
  "disk_nested_edited =
     Dir 0 [(''Source'', Dir 1 [(''sub'', Dir 1 [(''a.txt'', File 2 False ''v2'')])]),
            (''Replica'', Dir 0 [(''sub'', Dir 0 [(''a.txt'', File 0 False ''v1'')]),
                                 (''a.txt'', File 0 False ''v1'')])]"

definition disk_one_file :: node where
  "disk_one_file = Dir 0 [(''Source'', Dir 1 [(''a.txt'', File 1 False ''old'')]), (''Replica'', Dir 0 [])]"

text \<open>The file of \<open>disk_one_file\<close>, mirrored, is edited once.\<close>

definition disk_one_file_edited :: node where
  "disk_one_file_edited =
     Dir 0 [(''Source'', Dir 1 [(''a.txt'', File 2 False ''new'')]),
            (''Replica'', Dir 0 [(''a.txt'', File 0 False ''old'')])]"

definition disk_fifo :: node where
  "disk_fifo = Dir 0 [(''Source'', Dir 1 [(''pipe'', Other 1)]), (''Replica'', Dir 0 [])]"

definition undisturbed :: "nat \<Rightarrow> node \<Rightarrow> node" where
  "undisturbed t d = d"


definition state_fifo_recorded :: state where
  "state_fifo_recorded =
     \<lparr>source_content = [\<lparr>entry_path = [''Source'', ''pipe''], entry_type = other, entry_time = 1\<rparr>],
      replica_content = [\<lparr>entry_path = [''Source'', ''pipe''], entry_type = other, entry_time = 1\<rparr>],
      garbage = [], world = world_on disk_fifo, clock = 0, reported = []\<rparr>"

definition quiet :: "nat option \<Rightarrow> environment" where
  "quiet t = \<lparr>stop_at = t, outside = undisturbed\<rparr>"

definition state_one_file_recorded :: state where
  "state_one_file_recorded =
     \<lparr>source_content = [\<lparr>entry_path = [''Source'', ''a.txt''], entry_type = regular, entry_time = 1\<rparr>],
      replica_content = [\<lparr>entry_path = [''Source'', ''a.txt''], entry_type = regular, entry_time = 1\<rparr>],
      garbage = [],
      world = \<lparr>disk = Dir 0 [(''Source'', Dir 1 [(''a.txt'', File 1 False ''old'')]),
                            (''Replica'', Dir 5 [(''a.txt'', File 5 False ''old'')])],
               logger = Some False,
               logged = [(INFO, ''Regular file a.txt has been created in Replica | Source/a.txt'')],
               log_file = None, time = 5\<rparr>,
      clock = 5,
      reported = [(CREATE, REGULAR, [''Source'', ''a.txt''])]\<rparr>"

definition disk_one_file_deleted :: node where
  "disk_one_file_deleted =
     Dir 0 [(''Source'', Dir 2 []), (''Replica'', Dir 0 [(''a.txt'', File 0 False ''old'')])]"

text \<open>
  A file in a directory of its own name, beside a second file; the state after the first
  loop has mirrored the directory, and the world in which the copy of the file has
  failed. Two recorded files that are gone from the source, the first with a directory
  in its place in the replica; and the world in which its removal has failed.
\<close>

definition disk_same_name_more :: node where
  "disk_same_name_more =
     Dir 0 [(''Source'', Dir 1 [(''d'', Dir 1 [(''d'', File 1 False ''v1'')]),
                                (''z.txt'', File 1 False ''z'')]),
            (''Replica'', Dir 0 [])]"

definition state_two_recorded :: state where
  "state_two_recorded =
     \<lparr>source_content = [\<lparr>entry_path = [''Source'', ''a''], entry_type = regular, entry_time = 1\<rparr>,
                         \<lparr>entry_path = [''Source'', ''b''], entry_type = regular, entry_time = 1\<rparr>],
      replica_content = [\<lparr>entry_path = [''Source'', ''a''], entry_type = regular, entry_time = 1\<rparr>,
                          \<lparr>entry_path = [''Source'', ''b''], entry_type = regular, entry_time = 1\<rparr>],
      garbage = [],
      world = world_on (Dir 0 [(''Source'', Dir 2 []),
                               (''Replica'', Dir 2 [(''a'', Dir 2 [(''x'', File 2 False ''x'')]),
                                                    (''b'', File 0 False ''b'')])]),
      clock = 0, reported = []\<rparr>"


definition state_d_copied :: state where
  "state_d_copied =
     \<lparr>source_content = [\<lparr>entry_path = [''Source'', ''d''], entry_type = directory, entry_time = 1\<rparr>],
      replica_content = [\<lparr>entry_path = [''Source'', ''d''], entry_type = directory, entry_time = 1\<rparr>],
      garbage = [],
      world = \<lparr>disk = Dir 0 [(''Source'', Dir 1 [(''d'', Dir 1 [(''d'', File 1 False ''v1'')]),
                                               (''z.txt'', File 1 False ''z'')]),
                            (''Replica'', Dir 5 [(''d'', Dir 5 [(''d'', File 5 False ''v1'')])])],
               logger = Some False,
               logged = [(INFO, ''Directory d has been created in Replica | Source/d'')],
               log_file = None, time = 5\<rparr>,
      clock = 5, reported = [(CREATE, DIRECTORY, [''Source'', ''d''])]\<rparr>"

definition world_d_failed :: world where
  "world_d_failed =
     \<lparr>disk = Dir 0 [(''Source'', Dir 1 [(''d'', Dir 1 [(''d'', File 1 False ''v1'')]),
                                      (''z.txt'', File 1 False ''z'')]),
                   (''Replica'', Dir 5 [(''d'', Dir 5 [(''d'', File 5 False ''v1'')])])],
      logger = Some False,
      logged = [(INFO, ''Directory d has been created in Replica | Source/d''),
                (INFO, ''Regular file d has been created in Replica | Source/d/d'')],
      log_file = None, time = 5\<rparr>"

definition world_a_failed :: world where
  "world_a_failed =
     \<lparr>disk = Dir 0 [(''Source'', Dir 2 []),
                   (''Replica'', Dir 2 [(''a'', Dir 2 [(''x'', File 2 False ''x'')]),
                                        (''b'', File 0 False ''b'')])],
      logger = Some False,
      logged = [(INFO, ''Regular file a has been deleted from Replica | Source/a'')],
      log_file = None, time = 5\<rparr>"






section \<open>The two sets of the watcher\<close>

lemma set_contains_iff: "set_contains s e \<longleftrightarrow> entry_path e \<in> entry_path ` set s"
proof -
  have "set_contains s e \<longleftrightarrow> (\<exists>x. x \<in> set s \<and> entry_path x = entry_path e)"
    unfolding set_contains_def set_find_def find_None_iff by blast
  also have "\<dots> \<longleftrightarrow> entry_path e \<in> entry_path ` set s"
    by (metis imageE imageI)
  finally show ?thesis .
qed

lemma set_emplace_set: "set (set_emplace e s) = (if set_contains s e then set s else insert e (set s))"
  by (simp add: set_emplace_def set_insort_key)

lemma set_contains_emplace: "set_contains (set_emplace e s) e"
  by (cases "set_contains s e") (simp_all add: set_emplace_def set_contains_iff set_insort_key)

lemma set_contains_emplace_mono: "set_contains s x \<Longrightarrow> set_contains (set_emplace e s) x"
  by (auto simp: set_contains_iff set_emplace_set)

lemma set_erase_set: "set (set_erase e s) = {x \<in> set s. entry_path x \<noteq> entry_path e}"
  by (simp add: set_erase_def)

lemma fold_set_erase_subset: "set (fold set_erase g s) \<subseteq> set s"
proof (induction g arbitrary: s)
  case Nil then show ?case by simp
next
  case (Cons a g)
  have "set (fold set_erase g (set_erase a s)) \<subseteq> set (set_erase a s)" by (rule Cons.IH)
  also have "\<dots> \<subseteq> set s" by (auto simp: set_erase_set)
  finally show ?case by simp
qed

lemma call_Inr:
  "call cb a f p d st = Inr st' \<Longrightarrow>
     source_content st' = source_content st \<and> replica_content st' = replica_content st
     \<and> garbage st' = garbage st \<and> clock st' = clock st
     \<and> reported st' = reported st @ [(a, f, p)]"
  by (auto simp: call_def split: sum.splits)

lemma visit_contents:
  "visit cb cfg e st = Inr st' \<Longrightarrow>
     garbage st' = garbage st \<and> clock st' = clock st
     \<and> (case set_find (source_content st) e of
          None \<Rightarrow> source_content st' = set_emplace e (source_content st)
                   \<and> replica_content st' = set_emplace e (replica_content st)
        | Some x \<Rightarrow> source_content st' = source_content st
                   \<and> replica_content st' = replica_content st)"
  by (auto simp: visit_def Let_def split: option.splits if_splits dest!: call_Inr)

lemma sweep_contents:
  "sweep cb cfg e st = Inr st' \<Longrightarrow>
     source_content st' = source_content st \<and> replica_content st' = replica_content st
     \<and> clock st' = clock st"
  by (auto simp: sweep_def then_do_def split: if_splits sum.splits dest!: call_Inr)

lemma sweep_all_contents:
  "sweep_all cb cfg es st = Inr st' \<Longrightarrow>
     source_content st' = source_content st \<and> replica_content st' = replica_content st
     \<and> clock st' = clock st"
proof (induction es arbitrary: st)
  case Nil then show ?case by simp
next
  case (Cons e es)
  then show ?case by (auto split: sum.splits dest!: sweep_contents)
qed

lemma shadowed_iff: "shadowed st \<longleftrightarrow> (\<forall>e \<in> set (source_content st). set_contains (replica_content st) e)"
  by (simp add: shadowed_def list_all_iff)

lemma never_pruned_iff: "never_pruned st st' \<longleftrightarrow> (\<forall>e \<in> set (replica_content st). set_contains (replica_content st') e)"
  by (simp add: never_pruned_def list_all_iff)

lemma set_contains_self: "e \<in> set s \<Longrightarrow> set_contains s e"
  by (auto simp: set_contains_iff)

lemma never_pruned_refl: "never_pruned st st"
  by (simp add: never_pruned_iff set_contains_self)

lemma never_pruned_same: "replica_content st' = replica_content st \<Longrightarrow> never_pruned st st'"
  by (simp add: never_pruned_iff set_contains_self)

lemma never_pruned_trans: "never_pruned a b \<Longrightarrow> never_pruned b c \<Longrightarrow> never_pruned a c"
  by (auto simp: never_pruned_iff set_contains_iff)

lemma visit_shadowed:
  assumes "shadowed st" and "visit cb cfg e st = Inr st'"
  shows "shadowed st' \<and> never_pruned st st'"
proof (cases "set_find (source_content st) e")
  case None
  with visit_contents[OF assms(2)]
  have s: "source_content st' = set_emplace e (source_content st)"
    and r: "replica_content st' = set_emplace e (replica_content st)" by auto
  have "\<not> set_contains (source_content st) e" using None by (simp add: set_contains_def)
  then have "set (source_content st') = insert e (set (source_content st))"
    by (simp add: s set_emplace_set)
  then show ?thesis using assms(1)
    by (auto simp: shadowed_iff never_pruned_iff r set_contains_emplace
        set_contains_emplace_mono set_contains_self)
next
  case (Some x)
  with visit_contents[OF assms(2)] show ?thesis using assms(1)
    by (auto simp: shadowed_iff never_pruned_same)
qed

lemma visit_all_shadowed:
  "shadowed st \<Longrightarrow> visit_all cb cfg es st = Inr st' \<Longrightarrow> shadowed st' \<and> never_pruned st st'"
proof (induction es arbitrary: st)
  case Nil then show ?case by (simp add: never_pruned_refl)
next
  case (Cons e es)
  from Cons.prems(2) obtain st1 where v: "visit cb cfg e st = Inr st1"
    and r: "visit_all cb cfg es st1 = Inr st'" by (auto split: sum.splits)
  from visit_shadowed[OF Cons.prems(1) v] Cons.IH[OF _ r]
  show ?case by (blast intro: never_pruned_trans)
qed

lemma sweep_shadowed:
  "shadowed st \<Longrightarrow> sweep cb cfg e st = Inr st' \<Longrightarrow>
     shadowed st' \<and> replica_content st' = replica_content st"
  by (auto simp: shadowed_iff dest!: sweep_contents)

lemma sweep_all_shadowed:
  "shadowed st \<Longrightarrow> sweep_all cb cfg es st = Inr st' \<Longrightarrow>
     shadowed st' \<and> replica_content st' = replica_content st"
  by (auto simp: shadowed_iff dest!: sweep_all_contents)

lemma collect_shadowed:
  "shadowed st \<Longrightarrow> shadowed (collect st) \<and> replica_content (collect st) = replica_content st"
  using fold_set_erase_subset[of "garbage st" "source_content st"]
  by (auto simp: shadowed_iff collect_def)

lemma poll_shadowed:
  assumes "shadowed st" and "poll cb cfg st = Inr st'"
  shows "shadowed st' \<and> never_pruned st st'"
proof -
  from assms(2) obtain es st1 st2 where
    v: "visit_all cb cfg es st = Inr st1" and
    s: "sweep_all cb cfg (source_content st1) st1 = Inr st2" and
    c: "st' = collect st2"
    by (auto simp: poll_def then_do_def split: sum.splits)
  from visit_all_shadowed[OF assms(1) v] have 1: "shadowed st1" "never_pruned st st1" by auto
  from sweep_all_shadowed[OF 1(1) s] have 2: "shadowed st2" "replica_content st2 = replica_content st1" by auto
  from collect_shadowed[OF 2(1)] have 3: "shadowed st'" "replica_content st' = replica_content st2"
    by (auto simp: c)
  from 1(2) 2(2) 3(2) have "never_pruned st st'" by (simp add: never_pruned_iff)
  with 3(1) show ?thesis by simp
qed

lemma sleep_for_contents:
  "source_content (sleep_for d env st) = source_content st"
  "replica_content (sleep_for d env st) = replica_content st"
  by (simp_all add: sleep_for_def)

lemma run_internal_shadowed:
  "shadowed st \<Longrightarrow> run_internal n cb cfg env st = Returned st' \<Longrightarrow>
     shadowed st' \<and> never_pruned st st'"
proof (induction n arbitrary: st)
  case 0 then show ?case by simp
next
  case (Suc n)
  show ?case
  proof (cases "stop_flag env (clock st)")
    case True
    with Suc.prems show ?thesis by (simp add: never_pruned_refl)
  next
    case False
    let ?s = "sleep_for (seconds (synch_interval cfg)) env st"
    from False Suc.prems(2) obtain st1 where p: "poll cb cfg ?s = Inr st1"
      and r: "run_internal n cb cfg env st1 = Returned st'"
      by (auto split: sum.splits prod.splits)
    have "shadowed ?s" using Suc.prems(1) by (simp add: shadowed_def sleep_for_contents)
    from poll_shadowed[OF this p] have 1: "shadowed st1" "never_pruned ?s st1" by auto
    from Suc.IH[OF 1(1) r] have 2: "shadowed st'" "never_pruned st1 st'" by auto
    have "never_pruned st st'" using 1(2) 2(2)
      by (auto simp: never_pruned_iff sleep_for_contents set_contains_iff)
    with 2(1) show ?thesis by simp
  qed
qed

text \<open>
  C9. The Snapshot stays within the Shadow Set. In a state where every entry of
  \<open>source_content\<close> has its path in \<open>replica_content\<close>, the test of the second loop holds
  for every entry of \<open>source_content\<close>; and every step of a poll cycle (the body of the
  first loop, the body of the second loop, the third loop), the whole cycle, and any
  number of cycles of \<open>run_internal\<close> lead to such a state again, with no path of
  \<open>replica_content\<close> lost, whatever the callback does.
\<close>

theorem snapshot_within_shadow_set:
  assumes "shadowed st"
  shows "(\<forall>e \<in> set (source_content st). set_contains (replica_content st) e)
       \<and> (\<forall>st'. visit cb cfg e st = Inr st' \<longrightarrow> shadowed st' \<and> never_pruned st st')
       \<and> (\<forall>st'. sweep cb cfg e st = Inr st' \<longrightarrow> shadowed st' \<and> never_pruned st st')
       \<and> shadowed (collect st) \<and> never_pruned st (collect st)
       \<and> (\<forall>st'. poll cb cfg st = Inr st' \<longrightarrow> shadowed st' \<and> never_pruned st st')
       \<and> (\<forall>st'. run_internal n cb cfg env st = Returned st' \<longrightarrow> shadowed st' \<and> never_pruned st st')"
proof -
  have 1: "\<forall>e \<in> set (source_content st). set_contains (replica_content st) e"
    using assms by (simp add: shadowed_iff)
  have 2: "\<forall>st'. visit cb cfg e st = Inr st' \<longrightarrow> shadowed st' \<and> never_pruned st st'"
    using visit_shadowed[OF assms] by blast
  have 3: "\<forall>st'. sweep cb cfg e st = Inr st' \<longrightarrow> shadowed st' \<and> never_pruned st st'"
    using sweep_shadowed[OF assms] never_pruned_same by blast
  have 4: "shadowed (collect st) \<and> never_pruned st (collect st)"
    using collect_shadowed[OF assms] never_pruned_same by blast
  have 5: "\<forall>st'. poll cb cfg st = Inr st' \<longrightarrow> shadowed st' \<and> never_pruned st st'"
    using poll_shadowed[OF assms] by blast
  have 6: "\<forall>st'. run_internal n cb cfg env st = Returned st' \<longrightarrow> shadowed st' \<and> never_pruned st st'"
    using run_internal_shadowed[OF assms] by blast
  from 1 2 3 4 5 6 show ?thesis by blast
qed

theorem snapshot_within_shadow_set_witness:
  "shadowed (with_disk disk_one_file_deleted state_one_file_recorded)
   \<and> (case poll report_action (watcher_config True)
              (with_disk disk_one_file_deleted state_one_file_recorded) of
        Inl x \<Rightarrow> False
      | Inr st' \<Rightarrow>
          shadowed st' \<and> source_content st' = []
        \<and> never_pruned (with_disk disk_one_file_deleted state_one_file_recorded) st'
        \<and> replica_content st' \<noteq> [])"
proof -
  let ?st = "with_disk disk_one_file_deleted state_one_file_recorded"
  have h: "shadowed ?st"
    by code_simp
  have c: "case poll report_action (watcher_config True) ?st of
             Inl x \<Rightarrow> False | Inr st' \<Rightarrow> source_content st' = [] \<and> replica_content st' \<noteq> []"
    by code_simp
  show ?thesis
    using h c snapshot_within_shadow_set [OF h, of report_action "watcher_config True"]
    by (auto split: sum.splits)
qed

section \<open>The classifier\<close>

text \<open>
  C4, as the claim states it: an object that is neither file nor directory is to be
  skipped with a warning and kept out of both sets. A FIFO \<open>Source/pipe\<close> met by the first
  poll is in \<open>source_content\<close> and in \<open>replica_content\<close> afterwards, and nothing is logged.
\<close>

theorem unexpected_object_recorded_counterexample:
  "poll report_action (watcher_config True) (start (world_on disk_fifo) 0) = Inr state_fifo_recorded
   \<and> set_contains (source_content state_fifo_recorded) (entry_of [''Source'', ''pipe''] (Other 1))
   \<and> set_contains (replica_content state_fifo_recorded) (entry_of [''Source'', ''pipe''] (Other 1))
   \<and> logged (world state_fifo_recorded) = []"
  by code_simp

text \<open>
  C4, amended. For an object of the walk that \<open>source_content\<close> does not hold and that is
  neither a regular file nor a directory, the first loop reports no event and leaves the
  disk as it is, and it puts the entry into both sets.
\<close>

theorem unexpected_object_recorded:
  assumes "set_find (source_content st) entry = None" and "entry_type entry = other"
  shows "\<exists>st'. visit cb cfg entry st = Inr st'
           \<and> reported st' = reported st \<and> disk (world st') = disk (world st)
           \<and> set_contains (source_content st') entry
           \<and> set_contains (replica_content st') entry"
  using assms
  by (simp add: visit_def is_regular_file_def is_directory_def set_contains_emplace)

theorem unexpected_object_recorded_witness:
  "set_find (source_content (start (world_on disk_fifo) 0))
     (entry_of [''Source'', ''pipe''] (Other 1)) = None
   \<and> entry_type (entry_of [''Source'', ''pipe''] (Other 1)) = other
   \<and> (\<exists>st'. visit report_action (watcher_config True) (entry_of [''Source'', ''pipe''] (Other 1))
               (start (world_on disk_fifo) 0) = Inr st'
            \<and> reported st' = reported (start (world_on disk_fifo) 0)
            \<and> disk (world st') = disk (world (start (world_on disk_fifo) 0))
            \<and> set_contains (source_content st') (entry_of [''Source'', ''pipe''] (Other 1))
            \<and> set_contains (replica_content st') (entry_of [''Source'', ''pipe''] (Other 1)))"
proof -
  have a: "set_find (source_content (start (world_on disk_fifo) 0))
             (entry_of [''Source'', ''pipe''] (Other 1)) = None"
    by code_simp
  have b: "entry_type (entry_of [''Source'', ''pipe''] (Other 1)) = other"
    by code_simp
  from unexpected_object_recorded [OF a b, of report_action "watcher_config True"] a b
  show ?thesis by blast
qed

lemma distinct_insort_key_paths:
  "distinct (map f (insort_key f e s)) \<longleftrightarrow> f e \<notin> f ` set s \<and> distinct (map f s)"
  by (induction s) (auto simp: set_insort_key)

lemma set_emplace_one_per_path:
  "distinct (map entry_path s) \<Longrightarrow> distinct (map entry_path (set_emplace e s))"
  by (simp add: set_emplace_def distinct_insort_key_paths set_contains_iff)

lemma visit_keeps:
  assumes "visit cb cfg e st = Inr st'"
  shows "garbage st' = garbage st \<and> set (source_content st) \<subseteq> set (source_content st')
       \<and> (one_per_path st \<longrightarrow> one_per_path st')
       \<and> (\<exists>new. reported st' = reported st @ new)"
proof -
  have r: "\<exists>new. reported st' = reported st @ new"
    using assms by (auto simp: visit_def Let_def split: option.splits if_splits dest!: call_Inr)
  from visit_contents[OF assms] r show ?thesis
    by (auto simp: one_per_path_def set_emplace_one_per_path set_emplace_set split: option.splits if_splits)
qed

lemma visit_all_keeps:
  "visit_all cb cfg es st = Inr st' \<Longrightarrow>
     garbage st' = garbage st \<and> set (source_content st) \<subseteq> set (source_content st')
       \<and> (one_per_path st \<longrightarrow> one_per_path st')
       \<and> (\<exists>new. reported st' = reported st @ new)"
proof (induction es arbitrary: st)
  case Nil then show ?case by simp
next
  case (Cons e es)
  from Cons.prems obtain st1 where v: "visit cb cfg e st = Inr st1"
    and r: "visit_all cb cfg es st1 = Inr st'" by (auto split: sum.splits)
  from visit_keeps[OF v] Cons.IH[OF r] show ?case by (auto simp: subset_iff)
qed

lemma sweep_reports:
  assumes "sweep cb cfg e st = Inr st'"
  shows "\<exists>new g. reported st' = reported st @ new \<and> garbage st' = garbage st @ g
           \<and> set g \<subseteq> {e}
           \<and> (\<forall>x \<in> set g. entry_type x \<noteq> other \<longrightarrow> delete_event x \<in> set new)"
proof (cases "set_contains (replica_content st) e \<and> \<not> fs_exists (disk (world st)) (entry_path e)")
  case False
  with assms have "st' = st" by (auto simp: sweep_def)
  then show ?thesis by simp
next
  case True
  show ?thesis
  proof (cases "entry_type e")
    case regular
    with True assms obtain st1 where c: "call cb DELETE REGULAR (entry_path e) (replica cfg) st = Inr st1"
      and s: "st' = st1\<lparr>garbage := garbage st1 @ [e]\<rparr>"
      by (auto simp: sweep_def then_do_def is_regular_file_def split: sum.splits)
    from call_Inr[OF c] s regular show ?thesis
      by (auto simp: delete_event_def is_regular_file_def)
  next
    case directory
    with True assms obtain st1 where c: "call cb DELETE DIRECTORY (entry_path e) (replica cfg) st = Inr st1"
      and s: "st' = st1\<lparr>garbage := garbage st1 @ [e]\<rparr>"
      by (auto simp: sweep_def then_do_def is_regular_file_def is_directory_def split: sum.splits)
    from call_Inr[OF c] s directory show ?thesis
      by (auto simp: delete_event_def is_regular_file_def)
  next
    case other
    with True assms have "st' = st\<lparr>garbage := garbage st @ [e]\<rparr>"
      by (auto simp: sweep_def then_do_def is_regular_file_def is_directory_def)
    with other show ?thesis by simp
  qed
qed

lemma sweep_all_reports:
  "sweep_all cb cfg es st = Inr st' \<Longrightarrow>
     \<exists>new g. reported st' = reported st @ new \<and> garbage st' = garbage st @ g
           \<and> set g \<subseteq> set es
           \<and> (\<forall>x \<in> set g. entry_type x \<noteq> other \<longrightarrow> delete_event x \<in> set new)"
proof (induction es arbitrary: st)
  case Nil then show ?case by simp
next
  case (Cons e es)
  from Cons.prems obtain st1 where v: "sweep cb cfg e st = Inr st1"
    and r: "sweep_all cb cfg es st1 = Inr st'" by (auto split: sum.splits)
  from sweep_reports[OF v] obtain n1 g1 where 1: "reported st1 = reported st @ n1"
    "garbage st1 = garbage st @ g1" "set g1 \<subseteq> {e}"
    "\<forall>x \<in> set g1. entry_type x \<noteq> other \<longrightarrow> delete_event x \<in> set n1" by blast
  from Cons.IH[OF r] obtain n2 g2 where 2: "reported st' = reported st1 @ n2"
    "garbage st' = garbage st1 @ g2" "set g2 \<subseteq> set es"
    "\<forall>x \<in> set g2. entry_type x \<noteq> other \<longrightarrow> delete_event x \<in> set n2" by blast
  have "reported st' = reported st @ (n1 @ n2)" "garbage st' = garbage st @ (g1 @ g2)"
    using 1 2 by simp_all
  moreover have "set (g1 @ g2) \<subseteq> set (e # es)" using 1(3) 2(3) by auto
  moreover have "\<forall>x \<in> set (g1 @ g2). entry_type x \<noteq> other \<longrightarrow> delete_event x \<in> set (n1 @ n2)"
    using 1(4) 2(4) by auto
  ultimately show ?case by blast
qed

lemma erased_in_garbage:
  "e \<in> set s \<Longrightarrow> e \<notin> set (fold set_erase g s) \<Longrightarrow> \<exists>x \<in> set g. entry_path x = entry_path e"
proof (induction g arbitrary: s)
  case Nil then show ?case by simp
next
  case (Cons a g)
  show ?case
  proof (cases "entry_path a = entry_path e")
    case True then show ?thesis by auto
  next
    case False
    with Cons.prems(1) have "e \<in> set (set_erase a s)" by (simp add: set_erase_set)
    from Cons.IH[OF this] Cons.prems(2) show ?thesis by auto
  qed
qed

lemma fold_set_erase_one_per_path:
  "distinct (map entry_path s) \<Longrightarrow> distinct (map entry_path (fold set_erase g s))"
  by (induction g arbitrary: s) (simp_all add: set_erase_def distinct_map_filter)

lemma poll_keeps:
  assumes "poll cb cfg st = Inr st'"
  shows "garbage st' = [] \<and> (one_per_path st \<longrightarrow> one_per_path st')"
proof -
  from assms obtain es st1 st2 where
    v: "visit_all cb cfg es st = Inr st1" and
    s: "sweep_all cb cfg (source_content st1) st1 = Inr st2" and
    c: "st' = collect st2"
    by (auto simp: poll_def then_do_def split: sum.splits)
  from visit_all_keeps[OF v] sweep_all_contents[OF s] c show ?thesis
    by (simp add: collect_def one_per_path_def fold_set_erase_one_per_path)
qed

lemma visit_no_delete:
  assumes "visit cb cfg e st = Inr st'"
  shows "\<exists>new. reported st' = reported st @ new \<and> (\<forall>ev \<in> set new. fst ev \<noteq> DELETE)"
proof -
  have "reported st' = reported st \<or> (\<exists>a f p. a \<noteq> DELETE \<and> reported st' = reported st @ [(a, f, p)])"
    using assms
    by (auto simp: visit_def Let_def split: option.splits if_splits dest!: call_Inr)
  then show ?thesis by auto
qed

lemma visit_all_no_delete:
  "visit_all cb cfg es st = Inr st' \<Longrightarrow>
     \<exists>new. reported st' = reported st @ new \<and> (\<forall>ev \<in> set new. fst ev \<noteq> DELETE)"
proof (induction es arbitrary: st)
  case Nil then show ?case by simp
next
  case (Cons e es)
  from Cons.prems obtain st1 where v: "visit cb cfg e st = Inr st1"
    and r: "visit_all cb cfg es st1 = Inr st'" by (auto split: sum.splits)
  from visit_no_delete[OF v] obtain n1 where 1: "reported st1 = reported st @ n1"
    "\<forall>ev \<in> set n1. fst ev \<noteq> DELETE" by blast
  from Cons.IH[OF r] obtain n2 where 2: "reported st' = reported st1 @ n2"
    "\<forall>ev \<in> set n2. fst ev \<noteq> DELETE" by blast
  have "reported st' = reported st @ (n1 @ n2)" using 1 2 by simp
  moreover have "\<forall>ev \<in> set (n1 @ n2). fst ev \<noteq> DELETE" using 1 2 by auto
  ultimately show ?case by blast
qed

lemma sweep_delete_events:
  assumes "sweep cb cfg e st = Inr st'"
  shows "\<exists>new. reported st' = reported st @ new
           \<and> (\<forall>ev \<in> set new. entry_type e \<noteq> other \<and> snd (snd ev) = entry_path e)"
proof -
  have "reported st' = reported st
      \<or> (entry_type e \<noteq> other \<and> (\<exists>a f. reported st' = reported st @ [(a, f, entry_path e)]))"
    using assms
    by (auto simp: sweep_def then_do_def is_regular_file_def is_directory_def
        split: if_splits sum.splits dest!: call_Inr)
  then show ?thesis by auto
qed

lemma sweep_all_delete_events:
  "sweep_all cb cfg es st = Inr st' \<Longrightarrow>
     \<exists>new. reported st' = reported st @ new
           \<and> (\<forall>ev \<in> set new. \<exists>x \<in> set es. entry_type x \<noteq> other \<and> snd (snd ev) = entry_path x)"
proof (induction es arbitrary: st)
  case Nil then show ?case by simp
next
  case (Cons e es)
  from Cons.prems obtain st1 where v: "sweep cb cfg e st = Inr st1"
    and r: "sweep_all cb cfg es st1 = Inr st'" by (auto split: sum.splits)
  from sweep_delete_events[OF v] obtain n1 where 1: "reported st1 = reported st @ n1"
    "\<forall>ev \<in> set n1. entry_type e \<noteq> other \<and> snd (snd ev) = entry_path e" by blast
  from Cons.IH[OF r] obtain n2 where 2: "reported st' = reported st1 @ n2"
    "\<forall>ev \<in> set n2. \<exists>x \<in> set es. entry_type x \<noteq> other \<and> snd (snd ev) = entry_path x" by blast
  have "reported st' = reported st @ (n1 @ n2)" using 1 2 by simp
  moreover have "\<forall>ev \<in> set (n1 @ n2).
      \<exists>x \<in> set (e # es). entry_type x \<noteq> other \<and> snd (snd ev) = entry_path x"
    using 1(2) 2(2) by auto
  ultimately show ?case by blast
qed

lemma sweep_vanished_other:
  assumes "entry_type x = other" and "set_contains (replica_content s) x"
    and "\<not> fs_exists (disk (world s)) (entry_path x)"
  shows "sweep cb cfg x s = Inr (s\<lparr>garbage := garbage s @ [x]\<rparr>)"
  using assms by (simp add: sweep_def then_do_def is_regular_file_def is_directory_def)

lemma collect_erases:
  assumes "x \<in> set (garbage s)"
  shows "x \<notin> set (source_content (collect s))"
proof -
  have "\<And>c. x \<in> set g \<Longrightarrow> x \<notin> set (fold set_erase g c)" for g
  proof (induction g)
    case Nil then show ?case by simp
  next
    case (Cons a g)
    show ?case
    proof (cases "x \<in> set g")
      case True with Cons.IH show ?thesis by simp
    next
      case False
      with Cons.prems have "x = a" by simp
      then have "x \<notin> set (set_erase a c)" by (simp add: set_erase_set)
      with fold_set_erase_subset[of g "set_erase a c"] show ?thesis by auto
    qed
  qed
  with assms show ?thesis by (simp add: collect_def)
qed

text \<open>
  C5, as the claim states it: no entry leaves the Snapshot without a delete event. The
  FIFO recorded above is gone from the disk at the next poll; its entry is erased from
  \<open>source_content\<close> and no event has been reported.
\<close>

theorem vanished_object_dropped_counterexample:
  "set_contains (source_content (with_disk disk_empty state_fifo_recorded))
     (entry_of [''Source'', ''pipe''] (Other 1))
   \<and> poll report_action (watcher_config True) (with_disk disk_empty state_fifo_recorded)
       = Inr \<lparr>source_content = [],
             replica_content =
               [\<lparr>entry_path = [''Source'', ''pipe''], entry_type = other, entry_time = 1\<rparr>],
             garbage = [], world = world_on disk_empty, clock = 0, reported = []\<rparr>"
  by code_simp

text \<open>
  C5, amended. An entry that a poll removes from \<open>source_content\<close> has had its delete
  event reported to the callback in that poll, before the third loop erased it, if it is
  stored as a regular file or as a directory; if it is stored as another type, no delete
  event for its path has been reported in that poll. (At the start of a poll \<open>garbage\<close>
  is empty and \<open>source_content\<close> holds one entry per path.) Every entry of another type
  that is in \<open>replica_content\<close> and gone from the disk is put into \<open>garbage\<close> by the
  second loop without a call to the callback, and every entry in \<open>garbage\<close> is erased
  from \<open>source_content\<close> by the third loop, which reports nothing.
\<close>

theorem removed_after_delete_event:
  assumes "poll cb cfg st = Inr st'"
    and "garbage st = []" and "one_per_path st"
    and "e \<in> set (source_content st)" and "e \<notin> set (source_content st')"
  shows "(\<exists>new. reported st' = reported st @ new
            \<and> (entry_type e \<noteq> other \<longrightarrow> delete_event e \<in> set new)
            \<and> (entry_type e = other \<longrightarrow> (\<forall>f. (DELETE, f, entry_path e) \<notin> set new)))
       \<and> (entry_type x = other \<and> set_contains (replica_content s) x
            \<and> \<not> fs_exists (disk (world s)) (entry_path x) \<longrightarrow>
              sweep cb cfg x s = Inr (s\<lparr>garbage := garbage s @ [x]\<rparr>))
       \<and> (x \<in> set (garbage s) \<longrightarrow>
              x \<notin> set (source_content (collect s)) \<and> reported (collect s) = reported s)"
proof -
  from assms(1) obtain es st1 st2 where
    v: "visit_all cb cfg es st = Inr st1" and
    s: "sweep_all cb cfg (source_content st1) st1 = Inr st2" and
    c: "st' = collect st2"
    by (auto simp: poll_def then_do_def split: sum.splits)
  from visit_all_keeps[OF v] assms(2,3,4) have
    1: "garbage st1 = []" "e \<in> set (source_content st1)" "one_per_path st1" by auto
  from visit_all_no_delete[OF v] obtain n0 where
    n0: "reported st1 = reported st @ n0" "\<forall>ev \<in> set n0. fst ev \<noteq> DELETE" by blast
  from sweep_all_reports[OF s] 1(1) obtain n1 g where
    2: "reported st2 = reported st1 @ n1" "garbage st2 = g" "set g \<subseteq> set (source_content st1)"
       "\<forall>x \<in> set g. entry_type x \<noteq> other \<longrightarrow> delete_event x \<in> set n1" by auto
  from sweep_all_delete_events[OF s] 2(1) have
    3: "\<forall>ev \<in> set n1. \<exists>x \<in> set (source_content st1).
          entry_type x \<noteq> other \<and> snd (snd ev) = entry_path x" by simp
  have sc: "source_content st2 = source_content st1" using sweep_all_contents[OF s] by simp
  have "e \<notin> set (fold set_erase g (source_content st1))"
    using assms(5) c 2(2) sc by (simp add: collect_def)
  from erased_in_garbage[OF 1(2) this] obtain y where y: "y \<in> set g" "entry_path y = entry_path e"
    by blast
  have same: "z = e" if "z \<in> set (source_content st1)" "entry_path z = entry_path e" for z
    using that 1(2,3) by (auto simp: one_per_path_def distinct_map inj_on_def)
  from y 2(3) same have "y = e" by blast
  with y(1) 2(4) have a: "entry_type e \<noteq> other \<longrightarrow> delete_event e \<in> set (n0 @ n1)" by auto
  have b: "entry_type e = other \<longrightarrow> (\<forall>f. (DELETE, f, entry_path e) \<notin> set (n0 @ n1))"
  proof (intro impI allI notI)
    fix f
    assume o: "entry_type e = other" and m: "(DELETE, f, entry_path e) \<in> set (n0 @ n1)"
    from m n0(2) have "(DELETE, f, entry_path e) \<in> set n1" by auto
    with 3 obtain z where "z \<in> set (source_content st1)" "entry_type z \<noteq> other"
      "entry_path e = entry_path z" by auto
    with same[of z] o show False by simp
  qed
  have r: "reported st' = reported st @ (n0 @ n1)"
    using c n0(1) 2(1) by (simp add: collect_def)
  have i: "\<exists>new. reported st' = reported st @ new
            \<and> (entry_type e \<noteq> other \<longrightarrow> delete_event e \<in> set new)
            \<and> (entry_type e = other \<longrightarrow> (\<forall>f. (DELETE, f, entry_path e) \<notin> set new))"
    using a b r by blast
  have ii: "entry_type x = other \<and> set_contains (replica_content s) x
            \<and> \<not> fs_exists (disk (world s)) (entry_path x) \<longrightarrow>
              sweep cb cfg x s = Inr (s\<lparr>garbage := garbage s @ [x]\<rparr>)"
    using sweep_vanished_other by blast
  have iii: "x \<in> set (garbage s) \<longrightarrow>
              x \<notin> set (source_content (collect s)) \<and> reported (collect s) = reported s"
    using collect_erases by (simp add: collect_def)
  from i ii iii show ?thesis by blast
qed

theorem removed_after_delete_event_witness:
  "poll report_action (watcher_config True) (with_disk disk_one_file_deleted state_one_file_recorded)
     = Inr \<lparr>source_content = [],
           replica_content = [\<lparr>entry_path = [''Source'', ''a.txt''], entry_type = regular, entry_time = 1\<rparr>],
           garbage = [],
           world = \<lparr>disk = Dir 0 [(''Source'', Dir 2 []), (''Replica'', Dir 5 [])],
                    logger = Some False,
                    logged = [(INFO, ''Regular file a.txt has been created in Replica | Source/a.txt''),
                              (INFO, ''Regular file a.txt has been deleted from Replica | Source/a.txt'')],
                    log_file = None, time = 5\<rparr>,
           clock = 5,
           reported = [(CREATE, REGULAR, [''Source'', ''a.txt'']),
                       (DELETE, REGULAR, [''Source'', ''a.txt''])]\<rparr>
   \<and> (\<exists>new. [(CREATE, REGULAR, [''Source'', ''a.txt'']), (DELETE, REGULAR, [''Source'', ''a.txt''])]
               = reported (with_disk disk_one_file_deleted state_one_file_recorded) @ new
            \<and> delete_event \<lparr>entry_path = [''Source'', ''a.txt''], entry_type = regular, entry_time = 1\<rparr>
                 \<in> set new)
   \<and> sweep report_action (watcher_config True) (entry_of [''Source'', ''pipe''] (Other 1))
        (with_disk disk_empty state_fifo_recorded)
       = Inr ((with_disk disk_empty state_fifo_recorded)
               \<lparr>garbage := [entry_of [''Source'', ''pipe''] (Other 1)]\<rparr>)
   \<and> entry_of [''Source'', ''pipe''] (Other 1)
       \<notin> set (source_content (collect ((with_disk disk_empty state_fifo_recorded)
               \<lparr>garbage := [entry_of [''Source'', ''pipe''] (Other 1)]\<rparr>)))
   \<and> (\<exists>new. reported (collect ((with_disk disk_empty state_fifo_recorded)
               \<lparr>garbage := [entry_of [''Source'', ''pipe''] (Other 1)]\<rparr>))
               = reported (with_disk disk_empty state_fifo_recorded) @ new
            \<and> (\<forall>f. (DELETE, f, [''Source'', ''pipe'']) \<notin> set new))"
  (is "?p = Inr ?st' \<and> ?c \<and> ?sw = Inr ?s1 \<and> ?d \<and> ?n")
proof -
  let ?st = "with_disk disk_one_file_deleted state_one_file_recorded"
  let ?e = "\<lparr>entry_path = [''Source'', ''a.txt''], entry_type = regular, entry_time = 1\<rparr>"
  let ?s = "with_disk disk_empty state_fifo_recorded"
  let ?x = "entry_of [''Source'', ''pipe''] (Other 1)"
  have p: "?p = Inr ?st'" by code_simp
  have g: "garbage ?st = []" by code_simp
  have o: "one_per_path ?st" by code_simp
  have i: "?e \<in> set (source_content ?st)" by code_simp
  have n: "?e \<notin> set (source_content ?st')" by simp
  have t: "entry_type ?e \<noteq> other" by simp
  have h: "entry_type ?x = other \<and> set_contains (replica_content ?s) ?x
            \<and> \<not> fs_exists (disk (world ?s)) (entry_path ?x)" by code_simp
  have k: "garbage ?s @ [?x] = [?x]" by code_simp
  have m: "?x \<in> set (garbage ?s1)" by simp
  from removed_after_delete_event [OF p g o i n, of ?x ?s] t h k have c: ?c and sw: "?sw = Inr ?s1"
    by simp_all
  from removed_after_delete_event [OF p g o i n, of ?x ?s1] m have d: "?d"
    by blast
  have p2: "poll report_action (watcher_config True) ?s = Inr (collect ?s1)" by code_simp
  have g2: "garbage ?s = []" by code_simp
  have o2: "one_per_path ?s" by code_simp
  have i2: "?x \<in> set (source_content ?s)" by code_simp
  have t2: "entry_type ?x = other" "entry_path ?x = [''Source'', ''pipe'']" by code_simp+
  from removed_after_delete_event [OF p2 g2 o2 i2 d] t2 have "?n" by simp
  with p c sw d show ?thesis by simp
qed

section \<open>Exceptions and the loop\<close>

lemma info_only_iff:
  "info_only w w' \<longleftrightarrow> (\<exists>new. logged w' = logged w @ new \<and> (\<forall>l \<in> set new. fst l = INFO))"
proof
  assume a: "info_only w w'"
  then have "logged w' = logged w @ drop (length (logged w)) (logged w')"
    by (metis append_take_drop_id info_only_def)
  with a show "\<exists>new. logged w' = logged w @ new \<and> (\<forall>l \<in> set new. fst l = INFO)"
    unfolding info_only_def list_all_iff by blast
next
  assume "\<exists>new. logged w' = logged w @ new \<and> (\<forall>l \<in> set new. fst l = INFO)"
  then show "info_only w w'" by (auto simp: info_only_def list_all_iff)
qed

lemma info_only_refl: "info_only w w"
  by (simp add: info_only_def)

lemma info_only_trans: "info_only a b \<Longrightarrow> info_only b c \<Longrightarrow> info_only a c"
  unfolding info_only_iff by auto

lemma then_do_simps: "then_do (Inr x) f = f x" "then_do (Inl e) f = Inl e"
  by (simp_all add: then_do_def)

lemma report_action_log: "info_only w (final_world (report_action a f p d w))"
proof -
  have 1: "\<And>text g. info_only w (final_world (then_do (logf INFO text w) (on_disk g)))"
    by (auto simp: logf_def on_disk_def then_do_def final_world_def info_only_iff
        split: option.splits sum.splits)
  have 2: "\<And>text g. info_only w (final_world (then_do (on_disk g w) (\<lambda>w1. logf INFO text w1)))"
    by (auto simp: logf_def on_disk_def then_do_def final_world_def info_only_iff
        split: option.splits sum.splits)
  show ?thesis
    unfolding report_action_def
    by (cases f) (simp_all add: then_do_simps in_world_def 1 2 info_only_refl[unfolded final_world_def]
        final_world_def[of "Inr _"] info_only_refl)
qed

lemma call_log: "info_only (world st) (final (call report_action a f p d st))"
  using report_action_log[of "world st" a f p d]
  by (auto simp: call_def final_def final_world_def split: sum.splits)

lemma visit_log: "info_only (world st) (final (visit report_action cfg e st))"
proof -
  have e: "\<And>s. info_only (world st) (final (Inr (st\<lparr>source_content := s\<rparr>)))"
    by (simp add: final_def info_only_refl)
  show ?thesis
    using call_log[of st] call_log[of "st\<lparr>source_content := set_emplace e (source_content st),
                        replica_content := set_emplace e (replica_content st)\<rparr>"]
    by (auto simp: visit_def Let_def final_def[of "Inr _"] info_only_refl split: option.splits)
qed

lemma final_Inr: "final (Inr st) = world st"
  by (simp add: final_def)

lemma final_Inl: "final (Inl (e, w)) = w"
  by (simp add: final_def)

lemma visit_all_log: "info_only (world st) (final (visit_all report_action cfg es st))"
proof (induction es arbitrary: st)
  case Nil then show ?case by (simp add: final_Inr info_only_refl)
next
  case (Cons e es)
  show ?case
  proof (cases "visit report_action cfg e st")
    case (Inl x)
    with visit_log[of st cfg e] show ?thesis by simp
  next
    case (Inr st1)
    with visit_log[of st cfg e] Cons.IH[of st1] show ?thesis
      by (auto simp: final_Inr intro: info_only_trans)
  qed
qed

lemma sweep_log: "info_only (world st) (final (sweep report_action cfg e st))"
proof -
  have g: "\<And>r. info_only (world st) (final r) \<Longrightarrow>
             info_only (world st) (final (then_do r (\<lambda>st1. Inr (st1\<lparr>garbage := garbage st1 @ [e]\<rparr>))))"
    by (auto simp: then_do_def final_def split: sum.splits)
  show ?thesis
    unfolding sweep_def
    by (auto intro!: g call_log simp: final_Inr info_only_refl)
qed

lemma sweep_all_log: "info_only (world st) (final (sweep_all report_action cfg es st))"
proof (induction es arbitrary: st)
  case Nil then show ?case by (simp add: final_Inr info_only_refl)
next
  case (Cons e es)
  show ?case
  proof (cases "sweep report_action cfg e st")
    case (Inl x)
    with sweep_log[of st cfg e] show ?thesis by simp
  next
    case (Inr st1)
    with sweep_log[of st cfg e] Cons.IH[of st1] show ?thesis
      by (auto simp: final_Inr intro: info_only_trans)
  qed
qed

lemma poll_log: "info_only (world st) (final (poll report_action cfg st))"
proof (cases "recursive_directory_iterator (disk (world st)) (to_path (source cfg))")
  case (Inl e)
  then show ?thesis by (simp add: poll_def final_Inl info_only_refl)
next
  case (Inr es)
  show ?thesis
  proof (cases "visit_all report_action cfg es st")
    case (Inl x)
    with Inr visit_all_log[of st cfg es] show ?thesis by (simp add: poll_def then_do_simps)
  next
    case v: (Inr st1)
    show ?thesis
    proof (cases "sweep_all report_action cfg (source_content st1) st1")
      case (Inl x)
      with Inr v visit_all_log[of st cfg es] sweep_all_log[of st1 cfg "source_content st1"]
      show ?thesis by (auto simp: poll_def then_do_simps final_Inr intro: info_only_trans)
    next
      case s: (Inr st2)
      with Inr v visit_all_log[of st cfg es] sweep_all_log[of st1 cfg "source_content st1"]
      show ?thesis
        by (auto simp: poll_def then_do_simps final_Inr collect_def intro: info_only_trans)
    qed
  qed
qed

lemma seconds_watcher_config: "seconds (synch_interval (watcher_config lib)) = 5"
  by (simp add: seconds_def watcher_config_def DirWatcher_def)

lemma poll_clock: "poll cb cfg st = Inr st' \<Longrightarrow> clock st' = clock st"
proof -
  assume "poll cb cfg st = Inr st'"
  then obtain es st1 st2 where
    v: "visit_all cb cfg es st = Inr st1" and
    s: "sweep_all cb cfg (source_content st1) st1 = Inr st2" and
    c: "st' = collect st2"
    by (auto simp: poll_def then_do_def split: sum.splits)
  have "clock st1 = clock st" using v
  proof (induction es arbitrary: st)
    case Nil then show ?case by simp
  next
    case (Cons a es)
    then show ?case by (auto split: sum.splits dest!: visit_contents)
  qed
  with sweep_all_contents[OF s] c show ?thesis by (simp add: collect_def)
qed

lemma visit_throws:
  assumes "walk_event cfg entry st = Some (a, f)"
    and "cb a f (entry_path entry) (replica cfg) (world st) = Inl x"
  shows "visit cb cfg entry st = Inl x"
  using assms
  by (auto simp: walk_event_def visit_def call_def Let_def split: option.splits if_splits)

lemma sweep_throws:
  assumes "sweep_event entry st = Some (a, f)"
    and "cb a f (entry_path entry) (replica cfg) (world st) = Inl x"
  shows "sweep cb cfg entry st = Inl x"
  using assms
  by (auto simp: sweep_event_def sweep_def call_def then_do_def split: if_splits)

lemma visit_all_throws:
  "visit_all cb cfg before st = Inr st1 \<Longrightarrow> visit cb cfg entry st1 = Inl x \<Longrightarrow>
     visit_all cb cfg (before @ entry # rest) st = Inl x"
  by (induction before arbitrary: st) (auto split: sum.splits)

lemma sweep_all_throws:
  "sweep_all cb cfg before st = Inr st1 \<Longrightarrow> sweep cb cfg entry st1 = Inl x \<Longrightarrow>
     sweep_all cb cfg (before @ entry # rest) st = Inl x"
  by (induction before arbitrary: st) (auto split: sum.splits)

text \<open>
  C3, as the claim states it: a failed apply is to be logged as an error, and the
  watcher is to go on to the next event. \<open>Source/d/d\<close> is a file in a directory of its
  own name, and \<open>Source/z.txt\<close> comes after it in the walk: the directory is copied to
  \<open>Replica/d\<close>, then the copy of the file to \<open>Replica/d\<close> fails. The exception ends
  \<open>run_internal\<close>; \<open>z.txt\<close> is never copied; the log has two lines, both \<open>INFO\<close>.
\<close>

theorem failed_apply_ends_worker_counterexample:
  "run_internal 1 report_action (watcher_config True) (quiet None)
     (start (world_on disk_same_name_more) 0)
   = Terminated (filesystem_error ''Invalid argument'') world_d_failed
   \<and> lookup (disk world_d_failed) [''Source'', ''z.txt''] = Some (File 1 False ''z'')
   \<and> lookup (disk world_d_failed) [''Replica'', ''z.txt''] = None
   \<and> map fst (logged world_d_failed) = [INFO, INFO]"
proof -
  have f: "\<not> stop_flag (quiet None) (clock (start (world_on disk_same_name_more) 0))"
    by code_simp
  have p: "poll report_action (watcher_config True)
             (sleep_for 5 (quiet None) (start (world_on disk_same_name_more) 0))
           = Inl (filesystem_error ''Invalid argument'', world_d_failed)"
    by code_simp
  have r: "lookup (disk world_d_failed) [''Source'', ''z.txt''] = Some (File 1 False ''z'')
     \<and> lookup (disk world_d_failed) [''Replica'', ''z.txt''] = None
     \<and> map fst (logged world_d_failed) = [INFO, INFO]"
    by code_simp
  show ?thesis
    unfolding One_nat_def run_internal.simps seconds_watcher_config p using f r by simp
qed

text \<open>
  C3, amended. When the apply operation of an event fails, be it an event of the first
  loop (create, modify) with entries of the walk still to come, or a delete event of the
  second loop with entries of \<open>source_content\<close> still to come, nothing catches the
  exception: the poll ends with it in the world the apply operation threw in, so that no
  later entry of the cycle is processed, \<open>run_internal\<close> ends with it, and the lines
  logged since the start of the cycle are all of severity \<open>INFO\<close>.
\<close>

theorem failed_apply_ends_worker:
  assumes "\<not> stop_flag env (clock st)"
    and "recursive_directory_iterator
           (disk (world (sleep_for (seconds (synch_interval cfg)) env st)))
           (to_path (source cfg)) = Inr walk"
    and "(walk = before @ entry # rest
          \<and> visit_all report_action cfg before
                (sleep_for (seconds (synch_interval cfg)) env st) = Inr st1
          \<and> walk_event cfg entry st1 = Some (action, file))
       \<or> (visit_all report_action cfg walk
                (sleep_for (seconds (synch_interval cfg)) env st) = Inr st2
          \<and> source_content st2 = before @ entry # rest
          \<and> sweep_all report_action cfg before st2 = Inr st1
          \<and> sweep_event entry st1 = Some (action, file))"
    and "report_action action file (entry_path entry) (replica cfg) (world st1) = Inl (e, w)"
  shows "poll report_action cfg (sleep_for (seconds (synch_interval cfg)) env st) = Inl (e, w)
       \<and> run_internal (Suc n) report_action cfg env st = Terminated e w
       \<and> info_only (world st) w"
proof -
  let ?s = "sleep_for (seconds (synch_interval cfg)) env st"
  have p: "poll report_action cfg ?s = Inl (e, w)"
    using assms(3)
  proof
    assume a: "walk = before @ entry # rest
          \<and> visit_all report_action cfg before ?s = Inr st1
          \<and> walk_event cfg entry st1 = Some (action, file)"
    then have "visit report_action cfg entry st1 = Inl (e, w)"
      using assms(4) visit_throws by blast
    with a have "visit_all report_action cfg walk ?s = Inl (e, w)"
      using visit_all_throws by blast
    with assms(2) show ?thesis by (simp add: poll_def then_do_def)
  next
    assume a: "visit_all report_action cfg walk ?s = Inr st2
          \<and> source_content st2 = before @ entry # rest
          \<and> sweep_all report_action cfg before st2 = Inr st1
          \<and> sweep_event entry st1 = Some (action, file)"
    then have "sweep report_action cfg entry st1 = Inl (e, w)"
      using assms(4) sweep_throws by blast
    with a have "sweep_all report_action cfg (source_content st2) st2 = Inl (e, w)"
      using sweep_all_throws by metis
    with a assms(2) show ?thesis by (simp add: poll_def then_do_def)
  qed
  have "info_only (world ?s) w"
    using poll_log[of ?s cfg] p by (simp add: final_Inl)
  then have "info_only (world st) w"
    by (simp add: info_only_def sleep_for_def)
  with assms(1) p show ?thesis by simp
qed

theorem failed_apply_ends_worker_witness:
  "walk_event (watcher_config True)
      \<lparr>entry_path = [''Source'', ''d'', ''d''], entry_type = regular, entry_time = 1\<rparr>
      state_d_copied = Some (CREATE, REGULAR)
   \<and> report_action CREATE REGULAR [''Source'', ''d'', ''d''] ''Replica'' (world state_d_copied)
       = Inl (filesystem_error ''Invalid argument'', world_d_failed)
   \<and> run_internal (Suc 0) report_action (watcher_config True) (quiet None)
       (start (world_on disk_same_name_more) 0)
       = Terminated (filesystem_error ''Invalid argument'') world_d_failed
   \<and> info_only (world (start (world_on disk_same_name_more) 0)) world_d_failed
   \<and> lookup (disk world_d_failed) [''Replica'', ''z.txt''] = None
   \<and> sweep_event \<lparr>entry_path = [''Source'', ''a''], entry_type = regular, entry_time = 1\<rparr>
        (sleep_for 5 (quiet None) state_two_recorded) = Some (DELETE, REGULAR)
   \<and> run_internal (Suc 0) report_action (watcher_config True) (quiet None) state_two_recorded
       = Terminated (filesystem_error ''Directory not empty'') world_a_failed
   \<and> info_only (world state_two_recorded) world_a_failed
   \<and> lookup (disk world_a_failed) [''Replica'', ''b''] = Some (File 0 False ''b'')"
proof -
  let ?cfg = "watcher_config True"
  let ?d = "\<lparr>entry_path = [''Source'', ''d''], entry_type = directory, entry_time = 1\<rparr>"
  let ?dd = "\<lparr>entry_path = [''Source'', ''d'', ''d''], entry_type = regular, entry_time = 1\<rparr>"
  let ?z = "\<lparr>entry_path = [''Source'', ''z.txt''], entry_type = regular, entry_time = 1\<rparr>"
  let ?a = "\<lparr>entry_path = [''Source'', ''a''], entry_type = regular, entry_time = 1\<rparr>"
  let ?b = "\<lparr>entry_path = [''Source'', ''b''], entry_type = regular, entry_time = 1\<rparr>"
  let ?s = "start (world_on disk_same_name_more) 0"
  let ?t = "state_two_recorded"
  have s: "seconds (synch_interval ?cfg) = 5" by (rule seconds_watcher_config)
  have f1: "\<not> stop_flag (quiet None) (clock ?s)" by code_simp
  have w1: "recursive_directory_iterator
              (disk (world (sleep_for (seconds (synch_interval ?cfg)) (quiet None) ?s)))
              (to_path (source ?cfg)) = Inr [?d, ?dd, ?z]"
    unfolding s by code_simp
  have v1: "walk_event ?cfg ?dd state_d_copied = Some (CREATE, REGULAR)" by code_simp
  have d1: "([?d, ?dd, ?z] = [?d] @ ?dd # [?z]
          \<and> visit_all report_action ?cfg [?d]
                (sleep_for (seconds (synch_interval ?cfg)) (quiet None) ?s) = Inr state_d_copied
          \<and> walk_event ?cfg ?dd state_d_copied = Some (CREATE, REGULAR))
       \<or> (visit_all report_action ?cfg [?d, ?dd, ?z]
                (sleep_for (seconds (synch_interval ?cfg)) (quiet None) ?s) = Inr state_d_copied
          \<and> source_content state_d_copied = [?d] @ ?dd # [?z]
          \<and> sweep_all report_action ?cfg [?d] state_d_copied = Inr state_d_copied
          \<and> sweep_event ?dd state_d_copied = Some (CREATE, REGULAR))"
    unfolding s by code_simp
  have a1: "report_action CREATE REGULAR (entry_path ?dd) (replica ?cfg) (world state_d_copied)
              = Inl (filesystem_error ''Invalid argument'', world_d_failed)"
    by code_simp
  have a1': "report_action CREATE REGULAR [''Source'', ''d'', ''d''] ''Replica'' (world state_d_copied)
              = Inl (filesystem_error ''Invalid argument'', world_d_failed)"
    by code_simp
  have z1: "lookup (disk world_d_failed) [''Replica'', ''z.txt''] = None" by code_simp
  have f2: "\<not> stop_flag (quiet None) (clock ?t)" by code_simp
  have w2: "recursive_directory_iterator
              (disk (world (sleep_for (seconds (synch_interval ?cfg)) (quiet None) ?t)))
              (to_path (source ?cfg)) = Inr []"
    unfolding s by code_simp
  have v2: "sweep_event ?a (sleep_for 5 (quiet None) ?t) = Some (DELETE, REGULAR)" by code_simp
  have d2: "([] = [] @ ?a # [?b]
          \<and> visit_all report_action ?cfg []
                (sleep_for (seconds (synch_interval ?cfg)) (quiet None) ?t)
              = Inr (sleep_for 5 (quiet None) ?t)
          \<and> walk_event ?cfg ?a (sleep_for 5 (quiet None) ?t) = Some (DELETE, REGULAR))
       \<or> (visit_all report_action ?cfg []
                (sleep_for (seconds (synch_interval ?cfg)) (quiet None) ?t)
              = Inr (sleep_for 5 (quiet None) ?t)
          \<and> source_content (sleep_for 5 (quiet None) ?t) = [] @ ?a # [?b]
          \<and> sweep_all report_action ?cfg [] (sleep_for 5 (quiet None) ?t)
              = Inr (sleep_for 5 (quiet None) ?t)
          \<and> sweep_event ?a (sleep_for 5 (quiet None) ?t) = Some (DELETE, REGULAR))"
    unfolding s by code_simp
  have a2: "report_action DELETE REGULAR (entry_path ?a) (replica ?cfg)
              (world (sleep_for 5 (quiet None) ?t))
              = Inl (filesystem_error ''Directory not empty'', world_a_failed)"
    by code_simp
  have b2: "lookup (disk world_a_failed) [''Replica'', ''b''] = Some (File 0 False ''b'')"
    by code_simp
  from failed_apply_ends_worker [OF f1 w1 d1 a1, of 0]
    failed_apply_ends_worker [OF f2 w2 d2 a2, of 0]
    v1 a1' z1 v2 b2
  show ?thesis by simp
qed

text \<open>
  C6, as the claim states it: a stop request during the sleep is to end the worker
  before the interval is over. The flag is set at second 1 of a sleep of 5 seconds; the
  worker returns at second 5, after a whole poll cycle that copied a file.
\<close>

theorem stop_during_sleep_waits_counterexample:
  "run_internal 2 report_action (watcher_config True) (quiet (Some 1))
     (start (world_on disk_one_file) 0)
   = Returned
       \<lparr>source_content = [\<lparr>entry_path = [''Source'', ''a.txt''], entry_type = regular, entry_time = 1\<rparr>],
        replica_content = [\<lparr>entry_path = [''Source'', ''a.txt''], entry_type = regular, entry_time = 1\<rparr>],
        garbage = [],
        world = \<lparr>disk = Dir 0 [(''Source'', Dir 1 [(''a.txt'', File 1 False ''old'')]),
                              (''Replica'', Dir 5 [(''a.txt'', File 5 False ''old'')])],
                 logger = Some False,
                 logged = [(INFO, ''Regular file a.txt has been created in Replica | Source/a.txt'')],
                 log_file = None, time = 5\<rparr>,
        clock = 5,
        reported = [(CREATE, REGULAR, [''Source'', ''a.txt''])]\<rparr>"
    (is "_ = Returned ?st1")
proof -
  have f: "\<not> stop_flag (quiet (Some 1)) (clock (start (world_on disk_one_file) 0))"
    by code_simp
  have g: "stop_flag (quiet (Some 1)) (clock ?st1)"
    by code_simp
  have p: "poll report_action (watcher_config True)
             (sleep_for 5 (quiet (Some 1)) (start (world_on disk_one_file) 0)) = Inr ?st1"
    by code_simp
  have "run_internal (Suc (Suc 0)) report_action (watcher_config True) (quiet (Some 1))
     (start (world_on disk_one_file) 0) = Returned ?st1"
    unfolding run_internal.simps seconds_watcher_config p using f g by simp
  then show ?thesis by (simp add: numeral_2_eq_2)
qed

text \<open>
  C6, amended. The worker reads the stop flag only at the top of the loop. When the
  flag is set during a sleep, the worker sleeps to the end of the interval, runs the poll
  cycle that follows, and returns after it.
\<close>

theorem stop_during_sleep_waits:
  assumes "stop_at env = Some t"
    and "clock st < t" and "t \<le> clock st + seconds (synch_interval cfg)"
    and "poll cb cfg (sleep_for (seconds (synch_interval cfg)) env st) = Inr st1"
  shows "run_internal (Suc (Suc n)) cb cfg env st = Returned st1
       \<and> clock st1 = clock st + seconds (synch_interval cfg)"
proof -
  have c: "clock st1 = clock st + seconds (synch_interval cfg)"
    using poll_clock[OF assms(4)] by (simp add: sleep_for_def)
  have "\<not> stop_flag env (clock st)" using assms(1,2) by (simp add: stop_flag_def)
  moreover have "stop_flag env (clock st1)" using assms(1,3) c by (simp add: stop_flag_def)
  ultimately show ?thesis using assms(4) c by simp
qed

theorem stop_during_sleep_waits_witness:
  "stop_at (quiet (Some 1)) = Some 1
   \<and> clock (start (world_on disk_one_file) 0) < 1
   \<and> 1 \<le> clock (start (world_on disk_one_file) 0) + seconds (synch_interval (watcher_config True))
   \<and> run_internal (Suc (Suc 0)) report_action (watcher_config True) (quiet (Some 1))
       (start (world_on disk_one_file) 0) = Returned state_one_file_recorded
   \<and> clock state_one_file_recorded = 5"
proof -
  have a: "stop_at (quiet (Some 1)) = Some 1" by (simp add: quiet_def)
  have b: "clock (start (world_on disk_one_file) 0) < 1" by (simp add: start_def)
  have c: "1 \<le> clock (start (world_on disk_one_file) 0) + seconds (synch_interval (watcher_config True))"
    by (simp add: seconds_watcher_config)
  have p: "poll report_action (watcher_config True)
             (sleep_for (seconds (synch_interval (watcher_config True))) (quiet (Some 1))
                (start (world_on disk_one_file) 0)) = Inr state_one_file_recorded"
    unfolding seconds_watcher_config by code_simp
  from stop_during_sleep_waits [OF a b c p, of 0] a b c show ?thesis
    by (simp add: seconds_watcher_config start_def)
qed

section \<open>The reconciler\<close>

lemma rfind_none: "c \<notin> set ys \<Longrightarrow> rfind ys c = None"
  by (induction ys) auto

lemma rfind_last: "c \<notin> set ys \<Longrightarrow> rfind (xs @ c # ys) c = Some (length xs)"
  by (induction xs) (auto simp: rfind_none)

lemma get_filename_plain: "CHR ''/'' \<notin> set ys \<Longrightarrow> get_filename ys = ys"
  by (simp add: get_filename_def rfind_none substr_def)

lemma get_filename_after_slash:
  "CHR ''/'' \<notin> set ys \<Longrightarrow> get_filename (xs @ CHR ''/'' # ys) = ys"
proof -
  have "nat (int (length xs) + 1) = Suc (length xs)" by simp
  then show ?thesis if "CHR ''/'' \<notin> set ys"
    using that by (simp add: get_filename_def rfind_last substr_def)
qed

lemma generic_string_snoc:
  "p \<noteq> [] \<Longrightarrow> generic_string (p @ [c]) = generic_string p @ CHR ''/'' # c"
  by (induction p rule: generic_string.induct) auto

lemma get_filename_generic_string:
  assumes "p \<noteq> []" and "CHR ''/'' \<notin> set (last p)"
  shows "get_filename (generic_string p) = last p"
proof (cases "butlast p = []")
  case True
  with assms(1) have "p = [last p]" by (metis append_butlast_last_id append_Nil)
  then have "generic_string p = last p" by (metis generic_string.simps(2))
  with assms(2) show ?thesis by (simp add: get_filename_plain)
next
  case False
  have "generic_string p = generic_string (butlast p @ [last p])" using assms(1) by simp
  also have "\<dots> = generic_string (butlast p) @ CHR ''/'' # last p"
    using False by (rule generic_string_snoc)
  finally show ?thesis using assms(2) by (simp add: get_filename_after_slash)
qed

lemma split_slash_not_Nil: "split_slash s \<noteq> []"
  by (induction s) (auto split: list.splits)

lemma split_slash_append:
  "split_slash (a @ CHR ''/'' # b) = split_slash a @ split_slash b"
proof (induction a)
  case Nil show ?case by simp
next
  case (Cons x a)
  obtain w ws where "split_slash a = w # ws"
    using split_slash_not_Nil[of a] by (cases "split_slash a") auto
  with Cons show ?case by simp
qed

lemma split_slash_plain: "CHR ''/'' \<notin> set s \<Longrightarrow> split_slash s = [s]"
  by (induction s) auto

lemma to_path_append_name:
  "name \<noteq> [] \<Longrightarrow> CHR ''/'' \<notin> set name \<Longrightarrow>
     to_path (d @ ''/'' @ name) = to_path d @ [name]"
  by (simp add: to_path_def split_slash_append split_slash_plain)

text \<open>
  C10. For a source path whose last component is \<open>name\<close> (not empty, without \<open>/\<close>),
  \<open>report_action\<close> is \<open>reconcile\<close> at the replica root joined with \<open>name\<close> alone, for every
  action and file type: the directories of the source path play no part, and two source
  paths with the same last component are applied at the same place of the replica.
\<close>

theorem target_is_replica_and_basename:
  assumes "path \<noteq> []" and "last path = name" and "name \<noteq> []" and "CHR ''/'' \<notin> set name"
  shows "report_action action file path directory_path w
           = reconcile name (to_path directory_path @ [name]) action file path w"
proof -
  have n: "get_filename (generic_string path) = name"
    using assms(1,2,4) get_filename_generic_string by blast
  have t: "to_path (directory_path @ ''/'' @ name) = to_path directory_path @ [name]"
    using assms(3,4) by (rule to_path_append_name)
  show ?thesis
    unfolding report_action_def reconcile_def n t
    by (cases "file"; cases action) (simp_all add: in_world_def then_do_def)
qed

theorem target_is_replica_and_basename_witness:
  "[''Source'', ''sub'', ''a.txt''] \<noteq> [] \<and> last [''Source'', ''sub'', ''a.txt''] = ''a.txt''
   \<and> ''a.txt'' \<noteq> [] \<and> CHR ''/'' \<notin> set ''a.txt''
   \<and> report_action CREATE REGULAR [''Source'', ''sub'', ''a.txt''] ''Replica'' (world_on disk_nested)
       = reconcile ''a.txt'' [''Replica'', ''a.txt''] CREATE REGULAR
           [''Source'', ''sub'', ''a.txt''] (world_on disk_nested)
   \<and> report_action DELETE REGULAR [''Source'', ''a.txt''] ''Replica'' (world_on disk_nested)
       = reconcile ''a.txt'' [''Replica'', ''a.txt''] DELETE REGULAR
           [''Source'', ''a.txt''] (world_on disk_nested)"
proof -
  have a: "[''Source'', ''sub'', ''a.txt''] \<noteq> []" "[''Source'', ''a.txt''] \<noteq> []" by simp_all
  have b: "last [''Source'', ''sub'', ''a.txt''] = ''a.txt''" "last [''Source'', ''a.txt''] = ''a.txt''"
    by simp_all
  have c: "''a.txt'' \<noteq> []" by simp
  have d: "CHR ''/'' \<notin> set ''a.txt''" by simp
  have e: "to_path ''Replica'' @ [''a.txt''] = [''Replica'', ''a.txt'']" by code_simp
  show ?thesis
    using target_is_replica_and_basename [OF a(1) b(1) c d, of CREATE REGULAR "''Replica''" "world_on disk_nested"]
      target_is_replica_and_basename [OF a(2) b(2) c d, of DELETE REGULAR "''Replica''" "world_on disk_nested"]
    unfolding e by simp
qed

section \<open>Applying an event twice\<close>
























lemma copy_node_directory:
  "copy_node now n (Dir m ch) t = Inr y \<Longrightarrow> type_of y = directory"
  by (cases t; cases "the t") (auto split: sum.splits)
















section \<open>Runs of the program\<close>

lemma main_extra_arguments:
  "5 < length argv \<Longrightarrow> main n lib env d now argv = Exit_failure usage"
  by (simp add: main_def Logger_def argv_at_def Let_def split: option.splits)

lemma main_few_arguments:
  "length argv < 4 \<Longrightarrow> main n lib env d now argv = Read_past_argv"
  by (simp add: main_def Logger_def argv_at_def)

text \<open>
  C7. A wrong number of arguments is to end in the usage message and a failure status.
  With three arguments after the program name \<open>argv[4]\<close> is the null pointer that ends
  \<open>argv\<close>, and the \<open>Logger\<close>, made before \<open>argc\<close> is tested, calls \<open>open\<close> through the null
  stream pointer: the usage message is never reached.
\<close>

theorem main_three_arguments:
  "main n lib env d now [''DirSynchronizer'', ''Source'', ''Replica'', ''5'']
     = Null_pointer_dereference"
  by (simp add: main_def Logger_def argv_at_def)

text \<open>
  C1. The replica is to equal the source after a poll. Source and replica start
  empty, and the first poll changes nothing; then \<open>Source/sub/a.txt\<close> is made. The next
  poll copies the directory \<open>sub\<close> with its file and then copies the file once more, under
  its bare name, into the root of the replica, which now holds \<open>a.txt\<close> where the source
  has none. When the file is edited after that, the poll that follows leaves
  \<open>Replica/sub/a.txt\<close> with the old bytes.
\<close>

theorem nested_file_copied_to_replica_root:
  "poll report_action (watcher_config lib) (start (world_on disk_empty) 0)
     = Inr (start (world_on disk_empty) 0)
   \<and> lookup disk_empty [''Source''] = lookup disk_empty [''Replica'']
   \<and> (case poll report_action (watcher_config lib)
              (with_disk disk_nested (start (world_on disk_empty) 0)) of
        Inl x \<Rightarrow> False
      | Inr st \<Rightarrow>
          lookup (disk (world st)) [''Source'']
            = Some (Dir 1 [(''sub'', Dir 1 [(''a.txt'', File 1 False ''v1'')])])
        \<and> lookup (disk (world st)) [''Replica'']
            = Some (Dir 0 [(''sub'', Dir 0 [(''a.txt'', File 0 False ''v1'')]),
                           (''a.txt'', File 0 False ''v1'')])
        \<and> (case poll report_action (watcher_config lib) (with_disk disk_nested_edited st) of
              Inl x \<Rightarrow> False
            | Inr st' \<Rightarrow>
                lookup (disk (world st')) [''Source'', ''sub'', ''a.txt''] = Some (File 2 False ''v2'')
              \<and> lookup (disk (world st')) [''Replica'', ''sub'', ''a.txt''] = Some (File 0 False ''v1'')))"
  by (cases lib) (simp_all only:, code_simp+)

text \<open>
  C2. An entry modified once is to give one modify event. \<open>Source/a.txt\<close> is mirrored by
  a first poll and then edited once (time 1 to time 2). Where the stored entry keeps the
  time it read, the entry of \<open>source_content\<close> still says 1 after the second poll, and the
  third poll, with nothing changed, reports the modification again; where it reads the
  disk, the second poll reports nothing at all.
\<close>

theorem modify_event_repeated:
  "(case poll report_action (watcher_config True) (start (world_on disk_one_file) 0) of
      Inl x \<Rightarrow> False
    | Inr s1 \<Rightarrow>
        (case poll report_action (watcher_config True) (with_disk disk_one_file_edited s1) of
           Inl x \<Rightarrow> False
         | Inr s2 \<Rightarrow>
             reported s2 = reported s1 @ [(MODIFY, REGULAR, [''Source'', ''a.txt''])]
           \<and> source_content s2 = source_content s1
           \<and> map entry_time (source_content s2) = [1]
           \<and> (case poll report_action (watcher_config True) s2 of
                 Inl x \<Rightarrow> False
               | Inr s3 \<Rightarrow>
                   disk (world s3) = disk (world s2)
                 \<and> reported s3 = reported s2 @ [(MODIFY, REGULAR, [''Source'', ''a.txt''])])))
   \<and> (case poll report_action (watcher_config False) (start (world_on disk_one_file) 0) of
        Inl x \<Rightarrow> False
      | Inr s1 \<Rightarrow>
          (case poll report_action (watcher_config False) (with_disk disk_one_file_edited s1) of
             Inl x \<Rightarrow> False
           | Inr s2 \<Rightarrow> reported s2 = reported s1))"
  by code_simp

end
